theory Spec2Isabelle
  imports Main
begin

section \<open>Strings\<close>

text \<open>
  A Python \<open>str\<close> is modelled as a \<open>string\<close>, each \<open>char\<close> standing for the code point
  of the same number (0 to 255). \<open>str.isspace\<close>, \<open>str.strip\<close> and the class \<open>\s\<close> of a
  \<open>str\<close> pattern agree on what a whitespace character is; below 256 these are the twelve
  code points listed here.
\<close>

definition whitespace_chars :: "char list" where
  "whitespace_chars =
     [CHR 0x09, CHR 0x0A, CHR 0x0B, CHR 0x0C, CHR 0x0D,
      CHR 0x1C, CHR 0x1D, CHR 0x1E, CHR 0x1F, CHR 0x20, CHR 0x85, CHR 0xA0]"

definition isspace :: "char \<Rightarrow> bool" where
  "isspace c \<longleftrightarrow> c \<in> set whitespace_chars"

definition lstrip :: "string \<Rightarrow> string" where
  "lstrip s = dropWhile isspace s"

definition rstrip :: "string \<Rightarrow> string" where
  "rstrip s = rev (dropWhile isspace (rev s))"

definition strip :: "string \<Rightarrow> string" where
  "strip s = rstrip (lstrip s)"

text \<open>\<open>s.partition(sep)\<close> for a separator of one character.\<close>

definition partition_str :: "string \<Rightarrow> char \<Rightarrow> string \<times> string \<times> string" where
  "partition_str s sep =
     (if sep \<in> set s
      then (takeWhile (\<lambda>c. c \<noteq> sep) s, [sep], tl (dropWhile (\<lambda>c. c \<noteq> sep) s))
      else (s, [], []))"

section \<open>The pattern \<open>RE_MULTILINE_REMARK\<close> and \<open>re.findall\<close>\<close>

text \<open>
  The pattern \<open>(.*\n\s*#)(.*)\<close> is a sequence of five items, each a literal character or
  a greedy star of a character class. \<open>bt\<close> is the backtracking matcher for such a
  sequence, anchored at the head of its input: a star first takes one more character and
  only when the remaining items then fail gives it back, as the \<open>re\<close> engine does. The
  result is what each item consumed and the input left after the match.
\<close>

datatype item = Lit char | Star "char \<Rightarrow> bool"

fun bt :: "item list \<Rightarrow> string \<Rightarrow> (string list \<times> string) option" where
  "bt [] s = Some ([], s)"
| "bt (Lit c # is) [] = None"
| "bt (Lit c # is) (d # s) =
     (if d = c then map_option (\<lambda>(gs, r). ([c] # gs, r)) (bt is s) else None)"
| "bt (Star p # is) [] = map_option (\<lambda>(gs, r). ([] # gs, r)) (bt is [])"
| "bt (Star p # is) (d # s) =
     (case (if p d then bt (Star p # is) s else None) of
        Some (g # gs, r) \<Rightarrow> Some ((d # g) # gs, r)
      | _ \<Rightarrow> map_option (\<lambda>(gs, r). ([] # gs, r)) (bt is (d # s)))"

text \<open>Without the flag DOTALL, \<open>.\<close> is every character but the newline.\<close>

definition not_newline :: "char \<Rightarrow> bool" where
  "not_newline c \<longleftrightarrow> c \<noteq> CHR 0x0A"

definition RE_MULTILINE_REMARK :: "item list" where
  "RE_MULTILINE_REMARK =
     [Star not_newline, Lit (CHR 0x0A), Star isspace, Lit (CHR ''#''), Star not_newline]"

text \<open>What an item may consume.\<close>

fun fits :: "item \<Rightarrow> string \<Rightarrow> bool" where
  "fits (Lit c) g = (g = [c])"
| "fits (Star p) g = list_all p g"

lemma bt_sound:
  "bt is s = Some (gs, r) \<Longrightarrow> s = concat gs @ r \<and> list_all2 fits is gs"
proof (induction "is" s arbitrary: gs r rule: bt.induct)
  case (1 s)
  then show ?case by simp
next
  case (2 c "is")
  then show ?case by simp
next
  case (3 c "is" d s)
  then show ?case by (auto split: if_splits)
next
  case (4 p "is")
  then show ?case by auto
next
  case (5 p "is" d s)
  show ?case
  proof (cases "if p d then bt (Star p # is) s else None")
    case None
    with 5 show ?thesis by auto
  next
    case (Some a)
    then obtain hs r' where a: "a = (hs, r')" by (cases a)
    show ?thesis
    proof (cases hs)
      case Nil
      with 5 Some a show ?thesis by (auto split: if_splits)
    next
      case (Cons g gs')
      with 5 Some a show ?thesis by (auto split: if_splits)
    qed
  qed
qed

lemma bt_RE_shape:
  assumes "bt RE_MULTILINE_REMARK s = Some (gs, r)"
  shows "\<exists>l w t. gs = [l, [CHR 0x0A], w, ''#'', t]
           \<and> s = l @ CHR 0x0A # w @ CHR ''#'' # t @ r
           \<and> list_all not_newline l \<and> list_all isspace w \<and> list_all not_newline t"
  using bt_sound [OF assms]
  by (auto simp: RE_MULTILINE_REMARK_def list_all2_Cons1)

lemma bt_RE_shorter:
  "bt RE_MULTILINE_REMARK s = Some (gs, r) \<Longrightarrow> length r < length s"
  using bt_RE_shape [of s gs r] by auto

text \<open>
  \<open>re.findall\<close> tries the pattern at the current position; after a match it goes on from
  the end of the match, after a failure from the next character. With two groups it
  returns the pairs of what the groups matched: the first four items are group 1, the
  fifth is group 2. A match of this pattern is never empty, which is why the search gets
  shorter at every step.
\<close>

function findall :: "string \<Rightarrow> (string \<times> string) list" where
  "findall s =
     (case bt RE_MULTILINE_REMARK s of
        Some (gs, r) \<Rightarrow> (concat (take 4 gs), concat (drop 4 gs)) # findall r
      | None \<Rightarrow> (case s of [] \<Rightarrow> [] | c # s' \<Rightarrow> findall s'))"
  by pat_completeness auto
termination
  by (relation "measure length") (auto simp: bt_RE_shorter)

declare findall.simps [simp del]

section \<open>The comment normalizer\<close>

definition ensure_spacing_for_multiline_comment :: "string \<Rightarrow> string" where
  "ensure_spacing_for_multiline_comment remark =
     (let remarks = findall remark;
          remarks = (if remarks = [] then [([], remark)] else remarks)
      in concat (map (\<lambda>entry. fst entry @ '' '' @ strip (snd entry)) remarks))"

text \<open>
  A \<open>CommentToken\<close> is an object whose \<open>value\<close> the normalizer assigns. The same token may
  be attached at several places of a document (a YAML alias makes one mapping, with its
  comments, the value of two keys), and is then rewritten once for each of them. Tokens
  are therefore named by addresses, and a store gives the \<open>value\<close> of every token.
\<close>

type_synonym addr = nat

type_synonym store = "addr \<Rightarrow> string"

text \<open>The string that \<open>ensure_space_after_octothorpe\<close> assigns to \<open>comment.value\<close>.\<close>

definition octothorpe_value :: "string \<Rightarrow> string" where
  "octothorpe_value v =
     (case partition_str v (CHR ''#'') of
        (space, octothorpe, remark) \<Rightarrow>
          space @ ''# '' @ lstrip (ensure_spacing_for_multiline_comment remark) @ ''\<newline>'')"

text \<open>
  The argument \<open>comment\<close> is \<open>None\<close> or a token; the function returns the store as the call
  leaves it.
\<close>

definition ensure_space_after_octothorpe :: "addr option \<Rightarrow> store \<Rightarrow> store" where
  "ensure_space_after_octothorpe comment s =
     (case comment of
        None \<Rightarrow> s
      | Some a \<Rightarrow> s(a := octothorpe_value (s a)))"

section \<open>Documents and their comments\<close>

text \<open>
  The exceptions the functions of this file raise.
\<close>

datatype error = KeyError | AttributeError | TypeError | OSError | NameError

text \<open>
  A document is a nested value: scalars, mappings and sequences. A mapping or sequence
  loaded by the YAML library (\<open>CommentedMap\<close>, \<open>CommentedSeq\<close>) carries the registry
  \<open>ca.items\<close>, a dictionary from a key or index to a list of comment slots; a plain
  \<open>dict\<close> or \<open>list\<close> has no attribute \<open>ca\<close>, which is the registry \<open>None\<close> here. A slot
  is \<open>None\<close>, a comment token, or a list of those. The value of a registry that is not a
  list (it cannot be iterated) is \<open>NotIterable\<close>. \<open>DQ s\<close> is
  \<open>DoubleQuotedScalarString(s)\<close>, a subclass of \<open>str\<close>. Numbers are the integers and
  the booleans. A dictionary is the list of its items in order, its keys distinct.

  The comment walk assigns tokens, never a mapping or sequence: a mapping or sequence
  that stands at two places of a document is written at both, with the same token
  addresses, and its tokens are rewritten at each visit as in the source. The quoting
  pass assigns the fields of records; a record that stands twice in the list is quoted
  twice, and the second pass leaves what the first has stored (lemma
  \<open>quote_value_quoted\<close>). A document that contains itself is not a value of this type;
  on such a document the walk ends only at the recursion limit of the interpreter.
\<close>

datatype key = Name string | Index int

datatype slot = Single "addr option" | Group "addr option list"

datatype attachment = Slots "slot list" | NotIterable

type_synonym registry = "(key \<times> attachment) list"

datatype yaml =
    Str string
  | DQ string
  | Num int
  | Bool bool
  | Null
  | Map "registry option" "(key \<times> yaml) list"
  | Seq "registry option" "yaml list"

text \<open>
  The body of the loop of \<open>ensure_space_comments\<close> on one slot: the token is normalized,
  or each token of a nested list.
\<close>

fun ensure_space_slot :: "slot \<Rightarrow> store \<Rightarrow> store" where
  "ensure_space_slot (Single c) s = ensure_space_after_octothorpe c s"
| "ensure_space_slot (Group cs) s = fold ensure_space_after_octothorpe cs s"

text \<open>
  \<open>ensure_space_comments\<close> receives the values of a registry. Its generator yields the
  slots of one value after the other and raises \<open>TypeError\<close> when it comes to a value that
  cannot be iterated; the tokens seen until then have been normalized.
\<close>

fun ensure_space_comments :: "attachment list \<Rightarrow> store \<Rightarrow> store \<times> error option" where
  "ensure_space_comments [] s = (s, None)"
| "ensure_space_comments (Slots comment_list # comments) s =
     ensure_space_comments comments (fold ensure_space_slot comment_list s)"
| "ensure_space_comments (NotIterable # comments) s = (s, Some TypeError)"

fun is_dict_or_list :: "yaml \<Rightarrow> bool" where
  "is_dict_or_list (Map r kvs) = True"
| "is_dict_or_list (Seq r xs) = True"
| "is_dict_or_list v = False"

text \<open>
  \<open>update_yaml_comments\<close> returns the store as the call leaves it and the exception that
  ended it, if any. Reading \<open>yaml_object.ca\<close> raises \<open>AttributeError\<close> on an object
  without registry, before anything is changed. The loop over the values of a mapping,
  or over the elements of a sequence, stops at the first entry whose call raises; the
  entries after it are not visited.
\<close>

fun update_yaml_comments :: "yaml \<Rightarrow> store \<Rightarrow> store \<times> error option"
  and update_values :: "yaml list \<Rightarrow> store \<Rightarrow> store \<times> error option"
  and update_items :: "(key \<times> yaml) list \<Rightarrow> store \<Rightarrow> store \<times> error option"
where
  "update_yaml_comments (Map (Some items) kvs) s =
     (case ensure_space_comments (map snd items) s of
        (s', Some e) \<Rightarrow> (s', Some e)
      | (s', None) \<Rightarrow> update_items kvs s')"
| "update_yaml_comments (Seq (Some items) xs) s =
     (case ensure_space_comments (map snd items) s of
        (s', Some e) \<Rightarrow> (s', Some e)
      | (s', None) \<Rightarrow> update_values xs s')"
| "update_yaml_comments v s = (s, Some AttributeError)"
| "update_values [] s = (s, None)"
| "update_values (entry # entries) s =
     (if is_dict_or_list entry
      then (case update_yaml_comments entry s of
              (s', Some e) \<Rightarrow> (s', Some e)
            | (s', None) \<Rightarrow> update_values entries s')
      else update_values entries s)"
| "update_items [] s = (s, None)"
| "update_items ((k, entry) # entries) s =
     (if is_dict_or_list entry
      then (case update_yaml_comments entry s of
              (s', Some e) \<Rightarrow> (s', Some e)
            | (s', None) \<Rightarrow> update_items entries s')
      else update_items entries s)"

section \<open>The quoting pass and the writer\<close>

text \<open>\<open>str(n)\<close> for an integer: its decimal digits, with a minus sign below zero.\<close>

function str_nat :: "nat \<Rightarrow> string" where
  "str_nat n =
     (if n < 10 then [''0123456789'' ! n]
      else str_nat (n div 10) @ [''0123456789'' ! (n mod 10)])"
  by pat_completeness auto
termination
  by (relation "measure id") auto

declare str_nat.simps [simp del]

definition str_int :: "int \<Rightarrow> string" where
  "str_int i = (if i < 0 then ''-'' @ str_nat (nat (- i)) else str_nat (nat i))"

text \<open>
  \<open>DQ(value)\<close> is \<open>str.__new__(DQ, value)\<close>: the text of \<open>str(value)\<close>. What \<open>str\<close> prints
  for a mapping or a sequence is the parameter \<open>repr\<close>.
\<close>

fun py_str :: "(yaml \<Rightarrow> string) \<Rightarrow> yaml \<Rightarrow> string" where
  "py_str repr (Str s) = s"
| "py_str repr (DQ s) = s"
| "py_str repr (Num n) = str_int n"
| "py_str repr (Bool b) = (if b then ''True'' else ''False'')"
| "py_str repr Null = ''None''"
| "py_str repr v = repr v"

text \<open>\<open>isinstance(value, (str, numbers.Number))\<close>.\<close>

fun is_str_or_number :: "yaml \<Rightarrow> bool" where
  "is_str_or_number (Str s) = True"
| "is_str_or_number (DQ s) = True"
| "is_str_or_number (Num n) = True"
| "is_str_or_number (Bool b) = True"
| "is_str_or_number v = False"

fun key_value :: "key \<Rightarrow> yaml" where
  "key_value (Name s) = Str s"
| "key_value (Index i) = Num i"

text \<open>
  What a \<open>for\<close> loop over a value visits: the elements of a sequence, the keys of a
  mapping, the characters of a string; a number or \<open>None\<close> is not iterable.
\<close>

fun iterate :: "yaml \<Rightarrow> error + yaml list" where
  "iterate (Seq r xs) = Inr xs"
| "iterate (Map r kvs) = Inr (map (\<lambda>kv. key_value (fst kv)) kvs)"
| "iterate (Str s) = Inr (map (\<lambda>c. Str [c]) s)"
| "iterate (DQ s) = Inr (map (\<lambda>c. Str [c]) s)"
| "iterate v = Inl TypeError"

text \<open>The value stored by the body of the inner loop, or the exception it raises.\<close>

definition quote_value :: "(yaml \<Rightarrow> string) \<Rightarrow> yaml \<Rightarrow> error + yaml" where
  "quote_value repr value =
     (if is_str_or_number value then Inr (DQ (py_str repr value))
      else (case iterate value of
              Inl e \<Rightarrow> Inl e
            | Inr vals \<Rightarrow> Inr (Seq None (map (\<lambda>val. DQ (py_str repr val)) vals))))"

text \<open>
  The inner loop over \<open>entry.items()\<close>: \<open>entry[key]\<close> is assigned item after item, up to the
  first value that raises.
\<close>

fun quote_items :: "(yaml \<Rightarrow> string) \<Rightarrow> (key \<times> yaml) list \<Rightarrow> (key \<times> yaml) list \<times> error option" where
  "quote_items repr [] = ([], None)"
| "quote_items repr ((k, value) # kvs) =
     (case quote_value repr value of
        Inl e \<Rightarrow> ((k, value) # kvs, Some e)
      | Inr value' \<Rightarrow>
          (case quote_items repr kvs of (kvs', e) \<Rightarrow> ((k, value') # kvs', e)))"

text \<open>Only a mapping has \<open>items()\<close>.\<close>

fun quote_entry :: "(yaml \<Rightarrow> string) \<Rightarrow> yaml \<Rightarrow> yaml \<times> error option" where
  "quote_entry repr (Map r kvs) = (case quote_items repr kvs of (kvs', e) \<Rightarrow> (Map r kvs', e))"
| "quote_entry repr v = (v, Some AttributeError)"

fun quote_entries :: "(yaml \<Rightarrow> string) \<Rightarrow> yaml list \<Rightarrow> yaml list \<times> error option" where
  "quote_entries repr [] = ([], None)"
| "quote_entries repr (entry # entries) =
     (case quote_entry repr entry of
        (entry', Some e) \<Rightarrow> (entry' # entries, Some e)
      | (entry', None) \<Rightarrow>
          (case quote_entries repr entries of (entries', e) \<Rightarrow> (entry' # entries', e)))"

text \<open>
  The outer loop over \<open>parsed_object["parsed_sample"]\<close>. The elements of a sequence are
  changed in place; the keys of a mapping and the characters of a string are visited
  only.
\<close>

fun quote_sample :: "(yaml \<Rightarrow> string) \<Rightarrow> yaml \<Rightarrow> yaml \<times> error option" where
  "quote_sample repr (Seq r entries) =
     (case quote_entries repr entries of (entries', e) \<Rightarrow> (Seq r entries', e))"
| "quote_sample repr v =
     (case iterate v of
        Inl e \<Rightarrow> (v, Some e)
      | Inr entries \<Rightarrow> (v, snd (quote_entries repr entries)))"

text \<open>The items of a dictionary with the value at a key replaced.\<close>

fun put_item :: "key \<Rightarrow> yaml \<Rightarrow> (key \<times> yaml) list \<Rightarrow> (key \<times> yaml) list" where
  "put_item k v [] = []"
| "put_item k v ((k', v') # kvs) =
     (if k' = k then (k', v) # kvs else (k', v') # put_item k v kvs)"

text \<open>
  What a call of \<open>ensure_yaml_standards\<close> leaves: the object as mutated, the values of
  the tokens, the text written to \<open>output_path\<close> (\<open>None\<close> when the file was not written)
  and the exception raised, if any. The serializer \<open>YAML_OBJECT.dump\<close> is the parameter
  \<open>dump\<close>; \<open>writable\<close> says whether \<open>open(output_path, "w")\<close> succeeds.
\<close>

record outcome =
  document :: yaml
  comments :: store
  written :: "string option"
  raised :: "error option"

definition write_file ::
  "(yaml \<Rightarrow> store \<Rightarrow> string) \<Rightarrow> (string \<Rightarrow> bool) \<Rightarrow> yaml \<Rightarrow> store \<Rightarrow> string \<Rightarrow> outcome" where
  "write_file dump writable doc s output_path =
     (if writable output_path
      then \<lparr>document = doc, comments = s, written = Some (dump doc s), raised = None\<rparr>
      else \<lparr>document = doc, comments = s, written = None, raised = Some OSError\<rparr>)"

text \<open>
  The handler \<open>except AttributeError: pass\<close> around the walk lets the call go on after
  that exception only.
\<close>

fun ensure_yaml_standards ::
  "(yaml \<Rightarrow> string) \<Rightarrow> (yaml \<Rightarrow> store \<Rightarrow> string) \<Rightarrow> (string \<Rightarrow> bool)
     \<Rightarrow> yaml \<Rightarrow> store \<Rightarrow> string \<Rightarrow> outcome" where
  "ensure_yaml_standards repr dump writable (Map r kvs) s output_path =
     (case map_of kvs (Name ''parsed_sample'') of
        None \<Rightarrow> \<lparr>document = Map r kvs, comments = s, written = None, raised = Some KeyError\<rparr>
      | Some sample \<Rightarrow>
          (case quote_sample repr sample of
             (sample', Some e) \<Rightarrow>
               \<lparr>document = Map r (put_item (Name ''parsed_sample'') sample' kvs), comments = s,
                written = None, raised = Some e\<rparr>
           | (sample', None) \<Rightarrow>
               (case update_yaml_comments (Map r (put_item (Name ''parsed_sample'') sample' kvs)) s of
                  (s', None) \<Rightarrow>
                    write_file dump writable
                      (Map r (put_item (Name ''parsed_sample'') sample' kvs)) s' output_path
                | (s', Some AttributeError) \<Rightarrow>
                    write_file dump writable
                      (Map r (put_item (Name ''parsed_sample'') sample' kvs)) s' output_path
                | (s', Some e) \<Rightarrow>
                    \<lparr>document = Map r (put_item (Name ''parsed_sample'') sample' kvs), comments = s',
                     written = None, raised = Some e\<rparr>)))"
| "ensure_yaml_standards repr dump writable v s output_path =
     \<lparr>document = v, comments = s, written = None, raised = Some TypeError\<rparr>"

section \<open>Test file names\<close>

text \<open>\<open>os.path.join\<close> of \<open>posixpath\<close>.\<close>

definition join_component :: "string \<Rightarrow> string \<Rightarrow> string" where
  "join_component path b =
     (if b \<noteq> [] \<and> hd b = CHR ''/'' then b
      else if path = [] \<or> last path = CHR ''/'' then path @ b
      else path @ ''/'' @ b)"

definition os_path_join :: "string \<Rightarrow> string list \<Rightarrow> string" where
  "os_path_join a p = foldl join_component a p"

text \<open>\<open>command.replace(" ", "_")\<close>.\<close>

definition replace_spaces :: "string \<Rightarrow> string" where
  "replace_spaces command = map (\<lambda>c. if c = CHR '' '' then CHR ''_'' else c) command"

text \<open>
  The parameter of \<open>get_test_files\<close> is \<open>vender_os\<close>; its body reads \<open>vendor_os\<close>, a name
  of the module. The first argument here is that global, \<open>None\<close> when it is not bound,
  which is a \<open>NameError\<close> at the first line.
\<close>

definition get_test_files ::
  "string option \<Rightarrow> string \<Rightarrow> string \<Rightarrow> int \<Rightarrow> error + (string \<times> string)" where
  "get_test_files global_vendor_os vender_os command index =
     (case global_vendor_os of
        None \<Rightarrow> Inl NameError
      | Some vendor_os \<Rightarrow>
          (let base_name = vendor_os @ ''_'' @ replace_spaces command;
               raw_base_name = (if index > 1 then base_name @ str_int index else base_name);
               raw_file = os_path_join ''tests''
                            [vendor_os, replace_spaces command, raw_base_name @ ''.raw''];
               template_file = os_path_join ''ntc_templates''
                                 [''templates'', base_name @ ''.textfsm'']
           in Inr (raw_file, template_file)))"

section \<open>Properties to be checked\<close>

subsection \<open>Remarks made of marker lines\<close>

text \<open>
  The remark of a comment token is a first line \<open>t0\<close>, then segments, each a newline,
  whitespace \<open>w\<close> (blank lines and indentation), the marker and the text \<open>t\<close> of the line,
  then possibly whitespace up to the end (\<open>tail\<close>).
\<close>

definition marker_segment :: "string \<times> string \<Rightarrow> string" where
  "marker_segment = (\<lambda>(w, t). CHR 0x0A # w @ CHR ''#'' # t)"

definition comment_remark :: "string \<Rightarrow> (string \<times> string) list \<Rightarrow> string \<Rightarrow> string" where
  "comment_remark t0 segs tail = t0 @ concat (map marker_segment segs) @ tail"

definition segment_ok :: "string \<times> string \<Rightarrow> bool" where
  "segment_ok = (\<lambda>(w, t). list_all isspace w \<and> list_all not_newline t)"

definition tail_ok :: "string \<Rightarrow> bool" where
  "tail_ok tail \<longleftrightarrow> list_all isspace tail \<and> (tail = [] \<or> hd tail = CHR 0x0A)"

text \<open>A segment with one space after its marker and its text stripped.\<close>

definition spaced_segment :: "string \<times> string \<Rightarrow> string" where
  "spaced_segment = (\<lambda>(w, t). CHR 0x0A # w @ ''# '' @ strip t)"

text \<open>A text without whitespace at either end.\<close>

definition trimmed :: "string \<Rightarrow> bool" where
  "trimmed t \<longleftrightarrow> t = [] \<or> (\<not> isspace (hd t) \<and> \<not> isspace (last t))"

definition trimmed_line :: "string \<Rightarrow> bool" where
  "trimmed_line t \<longleftrightarrow> list_all not_newline t \<and> trimmed t"

text \<open>
  The normalized form of a remark, read after the first marker of its comment: a space
  and the first text, then every further text on a line of its own after the marker and
  one space.
\<close>

definition normal_form :: "string \<Rightarrow> string list \<Rightarrow> string" where
  "normal_form t0 ts = '' '' @ t0 @ concat (map (\<lambda>t. ''\<newline># '' @ t) ts)"

subsection \<open>Comments\<close>

text \<open>
  The value of a comment token: what stands before its first marker (indentation), the
  marker and a remark made of marker lines. The first text is not blank when marker
  lines follow it.
\<close>

definition comment_value :: "string \<Rightarrow> string \<Rightarrow> (string \<times> string) list \<Rightarrow> string \<Rightarrow> string" where
  "comment_value indent t0 segs tail = indent @ ''#'' @ comment_remark t0 segs tail"

definition comment_ok :: "string \<Rightarrow> string \<Rightarrow> (string \<times> string) list \<Rightarrow> string \<Rightarrow> bool" where
  "comment_ok indent t0 segs tail \<longleftrightarrow>
     CHR ''#'' \<notin> set indent \<and> list_all not_newline t0 \<and> list_all segment_ok segs
     \<and> tail_ok tail \<and> (segs = [] \<or> \<not> list_all isspace t0)"

text \<open>
  The same comment with one space after every marker: the first text without its
  leading whitespace (and, when it is the only line, without its trailing whitespace),
  every segment spaced, and one newline at the end.
\<close>

definition spaced_comment :: "string \<Rightarrow> string \<Rightarrow> (string \<times> string) list \<Rightarrow> string" where
  "spaced_comment indent t0 segs =
     indent @ ''# '' @ (if segs = [] then strip t0 else lstrip t0)
       @ concat (map spaced_segment segs) @ ''\<newline>''"

subsection \<open>Documents\<close>

text \<open>
  A document all of whose mappings and sequences carry a registry; scalars carry none
  and are not visited.
\<close>

fun commented :: "yaml \<Rightarrow> bool"
  and commented_values :: "yaml list \<Rightarrow> bool"
  and commented_items :: "(key \<times> yaml) list \<Rightarrow> bool"
where
  "commented (Map r kvs) = (r \<noteq> None \<and> commented_items kvs)"
| "commented (Seq r xs) = (r \<noteq> None \<and> commented_values xs)"
| "commented v = False"
| "commented_values [] = True"
| "commented_values (x # xs) = ((is_dict_or_list x \<longrightarrow> commented x) \<and> commented_values xs)"
| "commented_items [] = True"
| "commented_items ((k, x) # kvs) = ((is_dict_or_list x \<longrightarrow> commented x) \<and> commented_items kvs)"

text \<open>A document in which every value of every registry is a list of slots.\<close>

fun iterable :: "attachment \<Rightarrow> bool" where
  "iterable (Slots slots) = True"
| "iterable NotIterable = False"

fun registry_ok :: "registry option \<Rightarrow> bool" where
  "registry_ok None = True"
| "registry_ok (Some items) = list_all (\<lambda>kv. iterable (snd kv)) items"

fun attachments_ok :: "yaml \<Rightarrow> bool"
  and attachments_ok_values :: "yaml list \<Rightarrow> bool"
  and attachments_ok_items :: "(key \<times> yaml) list \<Rightarrow> bool"
where
  "attachments_ok (Map r kvs) = (registry_ok r \<and> attachments_ok_items kvs)"
| "attachments_ok (Seq r xs) = (registry_ok r \<and> attachments_ok_values xs)"
| "attachments_ok v = True"
| "attachments_ok_values [] = True"
| "attachments_ok_values (x # xs) = (attachments_ok x \<and> attachments_ok_values xs)"
| "attachments_ok_items [] = True"
| "attachments_ok_items ((k, x) # kvs) = (attachments_ok x \<and> attachments_ok_items kvs)"

text \<open>
  The tokens attached anywhere in a document, one entry for every slot that holds a
  token: in a single slot or in a nested list, under every key, at every depth.
\<close>

fun present :: "addr option list \<Rightarrow> addr list" where
  "present [] = []"
| "present (None # cs) = present cs"
| "present (Some a # cs) = a # present cs"

fun slot_refs :: "slot \<Rightarrow> addr list" where
  "slot_refs (Single c) = present [c]"
| "slot_refs (Group cs) = present cs"

fun attachment_refs :: "attachment \<Rightarrow> addr list" where
  "attachment_refs (Slots slots) = concat (map slot_refs slots)"
| "attachment_refs NotIterable = []"

fun registry_refs :: "registry option \<Rightarrow> addr list" where
  "registry_refs None = []"
| "registry_refs (Some items) = concat (map (\<lambda>kv. attachment_refs (snd kv)) items)"

fun token_refs :: "yaml \<Rightarrow> addr list"
  and token_refs_values :: "yaml list \<Rightarrow> addr list"
  and token_refs_items :: "(key \<times> yaml) list \<Rightarrow> addr list"
where
  "token_refs (Map r kvs) = registry_refs r @ token_refs_items kvs"
| "token_refs (Seq r xs) = registry_refs r @ token_refs_values xs"
| "token_refs v = []"
| "token_refs_values [] = []"
| "token_refs_values (x # xs) = token_refs x @ token_refs_values xs"
| "token_refs_items [] = []"
| "token_refs_items ((k, x) # kvs) = token_refs x @ token_refs_items kvs"

text \<open>The logical value of a document: the document without its registries.\<close>

fun data :: "yaml \<Rightarrow> yaml"
  and data_values :: "yaml list \<Rightarrow> yaml list"
  and data_items :: "(key \<times> yaml) list \<Rightarrow> (key \<times> yaml) list"
where
  "data (Map r kvs) = Map None (data_items kvs)"
| "data (Seq r xs) = Seq None (data_values xs)"
| "data v = v"
| "data_values [] = []"
| "data_values (x # xs) = data x # data_values xs"
| "data_items [] = []"
| "data_items ((k, x) # kvs) = (k, data x) # data_items kvs"

fun fields :: "yaml \<Rightarrow> (key \<times> yaml) list" where
  "fields (Map r kvs) = kvs"
| "fields v = []"

text \<open>The fields of the records under \<open>parsed_sample\<close>, record by record.\<close>

definition sample_fields :: "yaml \<Rightarrow> (key \<times> yaml) list list" where
  "sample_fields d =
     (case data d of
        Map r kvs \<Rightarrow>
          (case map_of kvs (Name ''parsed_sample'') of
             Some (Seq r' recs) \<Rightarrow> map fields recs
           | _ \<Rightarrow> [])
      | _ \<Rightarrow> [])"

text \<open>
  A record as the quoting pass expects it: a mapping whose values are strings, numbers
  or lists.
\<close>

fun is_list :: "yaml \<Rightarrow> bool" where
  "is_list (Seq r xs) = True"
| "is_list v = False"

fun quotable_record :: "yaml \<Rightarrow> bool" where
  "quotable_record (Map r kvs) = list_all (\<lambda>kv. is_str_or_number (snd kv) \<or> is_list (snd kv)) kvs"
| "quotable_record v = False"

fun elements :: "yaml \<Rightarrow> yaml list" where
  "elements (Seq r xs) = xs"
| "elements v = []"

text \<open>
  The value the specification asks for: a string or number wrapped, a list wrapped
  element by element.
\<close>

definition quoted :: "(yaml \<Rightarrow> string) \<Rightarrow> yaml \<Rightarrow> yaml" where
  "quoted repr v =
     (if is_str_or_number v then DQ (py_str repr v)
      else Seq None (map (\<lambda>x. DQ (py_str repr x)) (elements v)))"

subsection \<open>File names\<close>

text \<open>A name that is one component of a path.\<close>

definition plain_name :: "string \<Rightarrow> bool" where
  "plain_name s \<longleftrightarrow> s \<noteq> [] \<and> CHR ''/'' \<notin> set s"

text \<open>The store after one token has been rewritten.\<close>

definition rewrite :: "addr \<Rightarrow> store \<Rightarrow> store" where
  "rewrite a s = s(a := octothorpe_value (s a))"

subsection \<open>Example documents\<close>

text \<open>
  The document of the docstrings with the two comments of its registry that the walker's
  test reads: token 0 under the key \<open>b\<close>, token 1 in a nested list under the key \<open>d\<close>.
\<close>

definition example_document :: yaml where
  "example_document =
     Map (Some [(Name ''b'', Slots [Single None, Single None, Single (Some 0), Single None]),
                (Name ''d'', Slots [Single None, Single None, Single None, Group [Some 1]])])
       [(Name ''a'', Num 5),
        (Name ''b'', Num 6),
        (Name ''c'', Seq (Some []) [Num 7, Num 8]),
        (Name ''d'', Map (Some [])
            [(Name ''e'', Str ''a''),
             (Name ''f'', Seq (Some []) [Num 9, Num 10, Map (Some []) [(Name ''a'', Num 8)]])])]"

definition example_store :: store where
  "example_store =
     (\<lambda>a. if a = 0 then ''#comment 2\<newline>#comment 3\<newline>''
          else if a = 1 then ''#comment 7\<newline>''
          else if a = 2 then ''#\<newline> #\<newline>''
          else [])"

text \<open>
  A document with an alias: the mapping under \<open>a\<close> is also the value of \<open>b\<close>, and its
  comment, token 2, is attached to it.
\<close>

definition aliased_document :: yaml where
  "aliased_document =
     Map (Some [])
       [(Name ''a'', Map (Some [(Name ''k'', Slots [Single None, Single None, Single (Some 2), Single None])])
                       [(Name ''k'', Num 1)]),
        (Name ''b'', Map (Some [(Name ''k'', Slots [Single None, Single None, Single (Some 2), Single None])])
                       [(Name ''k'', Num 1)])]"

text \<open>
  The same document as \<open>example_document\<close> with a plain list under \<open>c\<close>, and the comment
  of the key \<open>e\<close>, token 1, in the registry of the mapping under \<open>d\<close>.
\<close>

definition plain_list_document :: yaml where
  "plain_list_document =
     Map (Some [(Name ''b'', Slots [Single None, Single None, Single (Some 0), Single None])])
       [(Name ''a'', Num 5),
        (Name ''b'', Num 6),
        (Name ''c'', Seq None [Num 7, Num 8]),
        (Name ''d'', Map (Some [(Name ''e'', Slots [Single None, Single None, Single (Some 1), Single None])])
            [(Name ''e'', Str ''a'')])]"

text \<open>
  A loaded document of records, every mapping and sequence with its registry; the
  comment of the second record is token 1.
\<close>

definition loaded_sample :: yaml where
  "loaded_sample =
     Map (Some [])
       [(Name ''parsed_sample'',
         Seq (Some [])
           [Map (Some []) [(Name ''a'', Str ''x''), (Name ''b'', Seq (Some []) [Str ''1'', Str ''2''])],
            Map (Some [(Name ''a'', Slots [Single None, Single None, Single (Some 1), Single None])])
              [(Name ''a'', Str ''y''), (Name ''b'', Seq (Some []) [])]])]"

section \<open>Lemmas\<close>

subsection \<open>The matcher and the normalizer\<close>

lemma bt_star_greedy:
  assumes "list_all p l" and "s = [] \<or> \<not> p (hd s)" and "bt is s = Some (gs, r)"
  shows "bt (Star p # is) (l @ s) = Some (l # gs, r)"
  using assms
proof (induction l)
  case Nil
  then show ?case by (cases s) auto
next
  case (Cons d l)
  then show ?case by simp
qed

lemma isspace_hash: "\<not> isspace (CHR ''#'')"
  by (simp add: isspace_def whitespace_chars_def)

lemma isspace_blank: "isspace (CHR '' '')"
  by (simp add: isspace_def whitespace_chars_def)

lemma bt_RE_match:
  assumes "list_all not_newline l" and "list_all isspace w" and "list_all not_newline t"
    and "r = [] \<or> hd r = CHR 0x0A"
  shows "bt RE_MULTILINE_REMARK (l @ CHR 0x0A # w @ CHR ''#'' # t @ r)
         = Some ([l, [CHR 0x0A], w, ''#'', t], r)"
proof -
  have 5: "bt [Star not_newline] (t @ r) = Some ([t], r)"
    using assms(3,4) by (intro bt_star_greedy) (auto simp: not_newline_def)
  have 4: "bt [Lit (CHR ''#''), Star not_newline] (CHR ''#'' # t @ r) = Some ([''#'', t], r)"
    using 5 by simp
  have 3: "bt [Star isspace, Lit (CHR ''#''), Star not_newline] (w @ CHR ''#'' # t @ r)
           = Some ([w, ''#'', t], r)"
    using assms(2) 4 by (intro bt_star_greedy) (auto simp: isspace_hash)
  have 2: "bt [Lit (CHR 0x0A), Star isspace, Lit (CHR ''#''), Star not_newline]
             (CHR 0x0A # w @ CHR ''#'' # t @ r) = Some ([[CHR 0x0A], w, ''#'', t], r)"
    using 3 by simp
  show ?thesis
    unfolding RE_MULTILINE_REMARK_def
    using assms(1) 2 by (intro bt_star_greedy) (auto simp: not_newline_def)
qed

lemma findall_no_match:
  "CHR ''#'' \<notin> set s \<or> CHR 0x0A \<notin> set s \<Longrightarrow> findall s = []"
proof (induction s)
  case Nil
  have "bt RE_MULTILINE_REMARK [] = None"
    using bt_RE_shape [of "[]"] by (cases "bt RE_MULTILINE_REMARK []") auto
  then show ?case by (subst findall.simps) simp
next
  case (Cons c s)
  have "bt RE_MULTILINE_REMARK (c # s) = None"
  proof (cases "bt RE_MULTILINE_REMARK (c # s)")
    case (Some a)
    obtain gs r where "a = (gs, r)" by (cases a)
    with Some bt_RE_shape [of "c # s" gs r] obtain l w t
      where "c # s = l @ CHR 0x0A # w @ CHR ''#'' # t @ r" by auto
    then have "CHR ''#'' \<in> set (c # s)" "CHR 0x0A \<in> set (c # s)"
      by (metis in_set_conv_decomp append_Cons append_assoc)+
    with Cons.prems show ?thesis by auto
  qed simp
  moreover have "findall s = []" using Cons by auto
  ultimately show ?case by (simp add: findall.simps [of "c # s"])
qed

lemma findall_segments:
  assumes "list_all segment_ok segs" and "tail_ok tail"
  shows "findall (concat (map marker_segment segs) @ tail)
         = map (\<lambda>(w, t). (CHR 0x0A # w @ ''#'', t)) segs"
  using assms(1)
proof (induction segs)
  case Nil
  have "CHR ''#'' \<notin> set tail"
    using assms(2) isspace_hash by (auto simp: tail_ok_def list_all_iff)
  then show ?case by (simp add: findall_no_match)
next
  case (Cons seg segs)
  obtain w t where seg: "seg = (w, t)" by (cases seg)
  let ?r = "concat (map marker_segment segs) @ tail"
  have r: "?r = [] \<or> hd ?r = CHR 0x0A"
  proof (cases segs)
    case Nil
    then show ?thesis using assms(2) by (simp add: tail_ok_def)
  next
    case (Cons a list)
    then show ?thesis by (cases a) (simp add: marker_segment_def)
  qed
  have "bt RE_MULTILINE_REMARK ([] @ CHR 0x0A # w @ CHR ''#'' # t @ ?r)
        = Some ([[], [CHR 0x0A], w, ''#'', t], ?r)"
    using Cons.prems seg r by (intro bt_RE_match) (auto simp: segment_ok_def)
  then have "findall (concat (map marker_segment (seg # segs)) @ tail)
             = (CHR 0x0A # w @ ''#'', t) # findall ?r"
    by (subst findall.simps) (simp add: seg marker_segment_def)
  with Cons seg show ?case by simp
qed

lemma findall_comment_remark:
  assumes "list_all not_newline t0" and "segment_ok (w, t)" and "list_all segment_ok segs"
    and "tail_ok tail"
  shows "findall (comment_remark t0 ((w, t) # segs) tail)
         = (t0 @ CHR 0x0A # w @ ''#'', t) # map (\<lambda>(w, t). (CHR 0x0A # w @ ''#'', t)) segs"
proof -
  let ?r = "concat (map marker_segment segs) @ tail"
  have r: "?r = [] \<or> hd ?r = CHR 0x0A"
  proof (cases segs)
    case Nil
    then show ?thesis using assms(4) by (simp add: tail_ok_def)
  next
    case (Cons a list)
    then show ?thesis by (cases a) (simp add: marker_segment_def)
  qed
  have "bt RE_MULTILINE_REMARK (t0 @ CHR 0x0A # w @ CHR ''#'' # t @ ?r)
        = Some ([t0, [CHR 0x0A], w, ''#'', t], ?r)"
    using assms r by (intro bt_RE_match) (auto simp: segment_ok_def)
  then have "findall (comment_remark t0 ((w, t) # segs) tail)
             = (t0 @ CHR 0x0A # w @ ''#'', t) # findall ?r"
    by (subst findall.simps) (simp add: comment_remark_def marker_segment_def)
  then show ?thesis using findall_segments [OF assms(3,4)] by simp
qed

lemma normalizer_on_comment_remark:
  assumes "list_all not_newline t0" and "segs \<noteq> []" and "list_all segment_ok segs"
    and "tail_ok tail"
  shows "ensure_spacing_for_multiline_comment (comment_remark t0 segs tail)
         = t0 @ concat (map spaced_segment segs)"
proof -
  obtain w t segs' where segs: "segs = (w, t) # segs'"
    using assms(2) by (cases segs) auto
  have "findall (comment_remark t0 segs tail)
        = (t0 @ CHR 0x0A # w @ ''#'', t) # map (\<lambda>(w, t). (CHR 0x0A # w @ ''#'', t)) segs'"
    using assms segs by (intro findall_comment_remark [of t0 w t segs' tail, folded segs]) auto
  moreover have "concat (map (\<lambda>entry. fst entry @ '' '' @ strip (snd entry))
                   (map (\<lambda>(w, t). (CHR 0x0A # w @ ''#'', t)) xs))
                 = concat (map spaced_segment xs)" for xs
    by (induction xs) (auto simp: spaced_segment_def)
  ultimately show ?thesis
    by (simp add: ensure_spacing_for_multiline_comment_def segs spaced_segment_def)
qed

lemma strip_trimmed: "trimmed t \<Longrightarrow> strip t = t"
proof -
  assume t: "trimmed t"
  then have "lstrip t = t"
    by (auto simp: trimmed_def lstrip_def dropWhile_eq_self_iff)
  moreover have "rstrip t = t"
  proof (cases "t = []")
    case False
    with t have "\<not> isspace (hd (rev t))" by (simp add: trimmed_def hd_rev)
    then have "dropWhile isspace (rev t) = rev t"
      using False by (simp add: dropWhile_eq_self_iff)
    then show ?thesis by (simp add: rstrip_def)
  qed (simp add: rstrip_def)
  ultimately show ?thesis by (simp add: strip_def)
qed

lemma strip_blank: "strip (CHR '' '' # t) = strip t"
  by (simp add: strip_def lstrip_def isspace_blank)

lemma last_dropWhile_nonempty:
  "dropWhile P xs \<noteq> [] \<Longrightarrow> last (dropWhile P xs) = last xs"
  by (metis last_appendR takeWhile_dropWhile_id)

lemma trimmed_strip: "trimmed (strip s)"
proof -
  let ?u = "dropWhile isspace s"
  let ?v = "dropWhile isspace (rev ?u)"
  have s: "strip s = rev ?v" by (simp add: strip_def lstrip_def rstrip_def)
  show ?thesis
  proof (cases "?v = []")
    case True
    then show ?thesis by (simp add: s trimmed_def)
  next
    case False
    then have u: "?u \<noteq> []" by (cases ?u) simp_all
    have "\<not> isspace (hd ?v)" using False by (rule hd_dropWhile)
    moreover have "last ?v = last (rev ?u)" using False by (rule last_dropWhile_nonempty)
    then have "last ?v = hd ?u" using u by (simp add: last_rev)
    then have "\<not> isspace (last ?v)" using hd_dropWhile [OF u] by simp
    ultimately show ?thesis using False by (simp add: s trimmed_def hd_rev last_rev)
  qed
qed

lemma strip_strip: "strip (CHR '' '' # strip t) = strip t"
  by (simp add: strip_blank strip_trimmed trimmed_strip)

lemma strip_whitespace: "list_all isspace s \<Longrightarrow> strip s = []"
proof -
  assume "list_all isspace s"
  then have d: "dropWhile isspace s = []"
    by (induction s) auto
  show ?thesis unfolding strip_def lstrip_def rstrip_def d by simp
qed

lemma normalizer_whitespace:
  "list_all isspace s \<Longrightarrow> ensure_spacing_for_multiline_comment s = '' ''"
proof -
  assume s: "list_all isspace s"
  then have "CHR ''#'' \<notin> set s" using isspace_hash by (auto simp: list_all_iff)
  then have "findall s = []" by (simp add: findall_no_match)
  then show ?thesis using s
    by (simp add: ensure_spacing_for_multiline_comment_def strip_whitespace)
qed

lemma normalizer_fixed_marker_lines:
  assumes "list_all not_newline l" and "ts \<noteq> []" and "list_all trimmed_line ts"
  shows "ensure_spacing_for_multiline_comment (l @ concat (map (\<lambda>t. ''\<newline># '' @ t) ts))
         = l @ concat (map (\<lambda>t. ''\<newline># '' @ t) ts)"
proof -
  let ?segs = "map (\<lambda>t. ([], CHR '' '' # t)) ts"
  have shape: "l @ concat (map (\<lambda>t. ''\<newline># '' @ t) ts) = comment_remark l ?segs []"
    by (simp add: comment_remark_def marker_segment_def comp_def)
  have segs: "map spaced_segment ?segs = map (\<lambda>t. ''\<newline># '' @ t) ts"
    using assms(3)
    by (auto simp: spaced_segment_def strip_blank strip_trimmed trimmed_line_def list_all_iff)
  have ok: "list_all segment_ok ?segs"
    using assms(3) by (auto simp: trimmed_line_def list_all_iff not_newline_def segment_ok_def)
  have ne: "?segs \<noteq> []" using assms(2) by simp
  have tl: "tail_ok []" by (simp add: tail_ok_def)
  have "ensure_spacing_for_multiline_comment (comment_remark l ?segs [])
        = l @ concat (map spaced_segment ?segs)"
    using assms(1) ne ok tl by (rule normalizer_on_comment_remark)
  then show ?thesis by (simp only: shape segs)
qed

lemma normalizer_normal_form:
  assumes "list_all trimmed_line (t0 # ts)"
  shows "ensure_spacing_for_multiline_comment (normal_form t0 ts) = normal_form t0 ts"
proof (cases ts)
  case Nil
  have "CHR 0x0A \<notin> set ('' '' @ t0)"
    using assms by (auto simp: trimmed_line_def list_all_iff not_newline_def)
  then have "findall ('' '' @ t0) = []" by (simp add: findall_no_match)
  then show ?thesis using assms Nil
    by (simp add: ensure_spacing_for_multiline_comment_def normal_form_def
        strip_blank strip_trimmed trimmed_line_def)
next
  case (Cons t ts')
  have "list_all not_newline ('' '' @ t0)"
    using assms by (simp add: trimmed_line_def not_newline_def)
  moreover have "ts \<noteq> []" using Cons by simp
  moreover have "list_all trimmed_line ts" using assms by simp
  ultimately have "ensure_spacing_for_multiline_comment
                     (('' '' @ t0) @ concat (map (\<lambda>t. ''\<newline># '' @ t) ts))
                   = ('' '' @ t0) @ concat (map (\<lambda>t. ''\<newline># '' @ t) ts)"
    by (rule normalizer_fixed_marker_lines)
  then show ?thesis by (simp add: normal_form_def)
qed

lemma normalizer_twice:
  assumes "list_all not_newline t0" and "segs \<noteq> []" and "list_all segment_ok segs"
    and "tail_ok tail"
  shows "ensure_spacing_for_multiline_comment
           (ensure_spacing_for_multiline_comment (comment_remark t0 segs tail))
         = ensure_spacing_for_multiline_comment (comment_remark t0 segs tail)"
proof -
  let ?segs = "map (\<lambda>(w, t). (w, CHR '' '' # strip t)) segs"
  have once: "ensure_spacing_for_multiline_comment (comment_remark t0 segs tail)
              = t0 @ concat (map spaced_segment segs)"
    using assms by (rule normalizer_on_comment_remark)
  have m: "map spaced_segment segs = map marker_segment ?segs"
    by (auto simp: spaced_segment_def marker_segment_def)
  have shape: "t0 @ concat (map spaced_segment segs) = comment_remark t0 ?segs []"
    by (simp only: comment_remark_def m append_Nil2)
  have nl: "list_all not_newline (strip t)" if "list_all not_newline t" for t
  proof -
    have "set (strip t) \<subseteq> set t"
      unfolding strip_def rstrip_def lstrip_def
      by (metis set_rev set_dropWhileD subsetI)
    with that show ?thesis by (auto simp: list_all_iff)
  qed
  have "segment_ok (w, CHR '' '' # strip t)" if "segment_ok (w, t)" for w t
    using that nl [of t] by (simp add: segment_ok_def not_newline_def)
  then have ok: "list_all segment_ok ?segs"
    using assms(3) by (auto simp: list_all_iff)
  have ne: "?segs \<noteq> []" using assms(2) by simp
  have "tail_ok []" by (simp add: tail_ok_def)
  with assms(1) ne ok
  have "ensure_spacing_for_multiline_comment (comment_remark t0 ?segs [])
        = t0 @ concat (map spaced_segment ?segs)"
    by (rule normalizer_on_comment_remark)
  moreover have "map spaced_segment ?segs = map spaced_segment segs"
    by (auto simp: spaced_segment_def strip_strip)
  ultimately show ?thesis by (simp only: once shape)
qed

lemma findall_no_marker_line:
  "CHR ''#'' \<notin> set (dropWhile not_newline s) \<Longrightarrow> findall s = []"
proof (induction s)
  case Nil
  then show ?case by (simp add: findall_no_match)
next
  case (Cons c s)
  have "bt RE_MULTILINE_REMARK (c # s) = None"
  proof (cases "bt RE_MULTILINE_REMARK (c # s)")
    case (Some a)
    obtain gs r where "a = (gs, r)" by (cases a)
    with Some bt_RE_shape [of "c # s" gs r] obtain l w t
      where s: "c # s = l @ CHR 0x0A # w @ CHR ''#'' # t @ r" and l: "list_all not_newline l"
      by auto
    have "dropWhile not_newline (c # s) = CHR 0x0A # w @ CHR ''#'' # t @ r"
      unfolding s using l by (simp add: dropWhile_append2 list_all_iff not_newline_def)
    with Cons.prems show ?thesis by simp
  qed simp
  moreover have "CHR ''#'' \<notin> set (dropWhile not_newline s)"
    using Cons.prems by (auto split: if_splits dest: set_dropWhileD)
  then have "findall s = []" by (rule Cons.IH)
  ultimately show ?case by (simp add: findall.simps [of "c # s"])
qed

lemma rstrip_subset: "set (rstrip u) \<subseteq> set u"
  unfolding rstrip_def by (metis set_rev set_dropWhileD subsetI)

lemma rstrip_whitespace_tail: "list_all isspace tail \<Longrightarrow> rstrip (u @ tail) = rstrip u"
proof -
  assume "list_all isspace tail"
  then have "dropWhile isspace (rev tail @ rev u) = dropWhile isspace (rev u)"
    by (intro dropWhile_append2) (simp add: list_all_iff)
  then show ?thesis by (simp add: rstrip_def)
qed

lemma strip_line_tail:
  assumes "list_all isspace tail"
  shows "set (strip (l @ tail)) \<subseteq> set l"
proof (cases "list_all isspace l")
  case True
  with assms have "list_all isspace (l @ tail)" by simp
  then show ?thesis by (simp add: strip_whitespace)
next
  case False
  then obtain x where "x \<in> set l" "\<not> isspace x" by (auto simp: list_all_iff)
  then have "dropWhile isspace (l @ tail) = dropWhile isspace l @ tail"
    by (rule dropWhile_append1)
  then have "strip (l @ tail) = rstrip (dropWhile isspace l)"
    using assms by (simp add: strip_def lstrip_def rstrip_whitespace_tail)
  moreover have "set (rstrip (dropWhile isspace l)) \<subseteq> set (dropWhile isspace l)"
    by (rule rstrip_subset)
  ultimately show ?thesis by (auto dest: set_dropWhileD)
qed

lemma normalizer_twice_single_line:
  assumes "list_all not_newline l" and "tail_ok tail"
  shows "ensure_spacing_for_multiline_comment (ensure_spacing_for_multiline_comment (l @ tail))
         = ensure_spacing_for_multiline_comment (l @ tail)"
proof -
  have tail: "list_all isspace tail" using assms(2) by (simp add: tail_ok_def)
  have "dropWhile not_newline (l @ tail) = dropWhile not_newline tail"
    using assms(1) by (simp add: dropWhile_append2 list_all_iff)
  moreover have "CHR ''#'' \<notin> set tail"
    using tail isspace_hash by (auto simp: list_all_iff)
  ultimately have "CHR ''#'' \<notin> set (dropWhile not_newline (l @ tail))"
    by (auto dest: set_dropWhileD)
  then have "findall (l @ tail) = []" by (rule findall_no_marker_line)
  then have once: "ensure_spacing_for_multiline_comment (l @ tail) = '' '' @ strip (l @ tail)"
    by (simp add: ensure_spacing_for_multiline_comment_def)
  have "CHR 0x0A \<notin> set ('' '' @ strip (l @ tail))"
    using strip_line_tail [OF tail, of l] assms(1) by (auto simp: list_all_iff not_newline_def)
  then have "findall ('' '' @ strip (l @ tail)) = []" by (simp add: findall_no_match)
  then have "ensure_spacing_for_multiline_comment ('' '' @ strip (l @ tail))
             = '' '' @ strip ('' '' @ strip (l @ tail))"
    by (simp add: ensure_spacing_for_multiline_comment_def)
  then show ?thesis by (simp add: once strip_strip)
qed

lemma normalizer_nonempty: "ensure_spacing_for_multiline_comment s \<noteq> []"
proof (cases "findall s")
  case Nil
  then show ?thesis by (simp add: ensure_spacing_for_multiline_comment_def)
next
  case (Cons a list)
  then show ?thesis by (simp add: ensure_spacing_for_multiline_comment_def)
qed

lemma partition_str_marker:
  "CHR ''#'' \<notin> set indent \<Longrightarrow>
   partition_str (indent @ ''#'' @ r) (CHR ''#'') = (indent, ''#'', r)"
proof -
  assume a: "CHR ''#'' \<notin> set indent"
  then have "takeWhile (\<lambda>c. c \<noteq> CHR ''#'') (indent @ CHR ''#'' # r) = indent"
    by (induction indent) auto
  moreover have "dropWhile (\<lambda>c. c \<noteq> CHR ''#'') (indent @ CHR ''#'' # r) = CHR ''#'' # r"
    using a by (induction indent) auto
  ultimately show ?thesis by (simp add: partition_str_def)
qed

lemma strip_whitespace_tail: "list_all isspace tail \<Longrightarrow> strip (l @ tail) = strip l"
proof (cases "list_all isspace l")
  case True
  assume "list_all isspace tail"
  with True have "list_all isspace (l @ tail)" by simp
  then show ?thesis using True by (simp add: strip_whitespace)
next
  case False
  assume t: "list_all isspace tail"
  from False obtain x where "x \<in> set l" "\<not> isspace x" by (auto simp: list_all_iff)
  then have "dropWhile isspace (l @ tail) = dropWhile isspace l @ tail"
    by (rule dropWhile_append1)
  then show ?thesis using t by (simp add: strip_def lstrip_def rstrip_whitespace_tail)
qed

lemma lstrip_blank: "lstrip (CHR '' '' # t) = lstrip t"
  by (simp add: lstrip_def isspace_blank)

lemma lstrip_trimmed: "trimmed t \<Longrightarrow> lstrip t = t"
  by (auto simp: trimmed_def lstrip_def dropWhile_eq_self_iff)

lemma lstrip_append: "\<not> list_all isspace l \<Longrightarrow> lstrip (l @ r) = lstrip l @ r"
proof -
  assume "\<not> list_all isspace l"
  then obtain x where "x \<in> set l" "\<not> isspace x" by (auto simp: list_all_iff)
  then show ?thesis unfolding lstrip_def by (rule dropWhile_append1)
qed

lemma octothorpe_comment:
  assumes "comment_ok indent t0 segs tail"
  shows "octothorpe_value (comment_value indent t0 segs tail) = spaced_comment indent t0 segs"
proof -
  have i: "CHR ''#'' \<notin> set indent" and t0: "list_all not_newline t0"
    and segs: "list_all segment_ok segs" and tail: "tail_ok tail"
    and blank: "segs = [] \<or> \<not> list_all isspace t0"
    using assms by (simp_all add: comment_ok_def)
  have p: "partition_str (comment_value indent t0 segs tail) (CHR ''#'')
           = (indent, ''#'', comment_remark t0 segs tail)"
    unfolding comment_value_def using i by (rule partition_str_marker)
  show ?thesis
  proof (cases "segs = []")
    case True
    have ws: "list_all isspace tail" using tail by (simp add: tail_ok_def)
    have "dropWhile not_newline (t0 @ tail) = dropWhile not_newline tail"
      using t0 by (simp add: dropWhile_append2 list_all_iff)
    moreover have "CHR ''#'' \<notin> set tail"
      using ws isspace_hash by (auto simp: list_all_iff)
    ultimately have "CHR ''#'' \<notin> set (dropWhile not_newline (t0 @ tail))"
      by (auto dest: set_dropWhileD)
    then have "findall (t0 @ tail) = []" by (rule findall_no_marker_line)
    then have "ensure_spacing_for_multiline_comment (comment_remark t0 segs tail)
               = '' '' @ strip t0"
      using True ws
      by (simp add: ensure_spacing_for_multiline_comment_def comment_remark_def
          strip_whitespace_tail)
    moreover have "lstrip ('' '' @ strip t0) = strip t0"
      by (simp add: lstrip_blank lstrip_trimmed trimmed_strip)
    ultimately show ?thesis
      unfolding octothorpe_value_def p spaced_comment_def using True by simp
  next
    case False
    then have "ensure_spacing_for_multiline_comment (comment_remark t0 segs tail)
               = t0 @ concat (map spaced_segment segs)"
      using t0 segs tail by (intro normalizer_on_comment_remark)
    moreover have "lstrip (t0 @ concat (map spaced_segment segs))
                   = lstrip t0 @ concat (map spaced_segment segs)"
      using blank False by (intro lstrip_append) simp
    ultimately show ?thesis
      unfolding octothorpe_value_def p spaced_comment_def using False by simp
  qed
qed

lemma lstrip_subset: "set (lstrip t) \<subseteq> set t"
  unfolding lstrip_def by (auto dest: set_dropWhileD)

lemma strip_subset: "set (strip t) \<subseteq> set t"
  unfolding strip_def using rstrip_subset lstrip_subset by blast

lemma lstrip_not_blank: "\<not> list_all isspace t \<Longrightarrow> \<not> list_all isspace (lstrip t)"
proof -
  assume "\<not> list_all isspace t"
  then have "dropWhile isspace t \<noteq> []" by (auto simp: list_all_iff)
  then have "\<not> isspace (hd (dropWhile isspace t))" by (rule hd_dropWhile)
  moreover have "hd (dropWhile isspace t) \<in> set (dropWhile isspace t)"
    using \<open>dropWhile isspace t \<noteq> []\<close> by (rule hd_in_set)
  ultimately show ?thesis by (auto simp: lstrip_def list_all_iff)
qed

lemma lstrip_lstrip: "lstrip (lstrip t) = lstrip t"
  unfolding lstrip_def by (rule dropWhile_idem)

lemma octothorpe_spaced:
  assumes "comment_ok indent t0 segs tail"
  shows "octothorpe_value (spaced_comment indent t0 segs) = spaced_comment indent t0 segs"
proof -
  let ?t = "if segs = [] then strip t0 else lstrip t0"
  let ?segs = "map (\<lambda>(w, t). (w, CHR '' '' # strip t)) segs"
  have i: "CHR ''#'' \<notin> set indent" and t0: "list_all not_newline t0"
    and segs: "list_all segment_ok segs"
    and blank: "segs = [] \<or> \<not> list_all isspace t0"
    using assms by (simp_all add: comment_ok_def)
  have m: "map spaced_segment segs = map marker_segment ?segs"
    by (auto simp: spaced_segment_def marker_segment_def)
  have shape: "spaced_comment indent t0 segs
               = comment_value indent ('' '' @ ?t) ?segs ''\<newline>''"
    by (simp only: spaced_comment_def comment_value_def comment_remark_def m) simp
  have nl: "list_all not_newline (strip t)" if "list_all not_newline t" for t
    using that strip_subset [of t] by (auto simp: list_all_iff)
  have "segment_ok (w, CHR '' '' # strip t)" if "segment_ok (w, t)" for w t
    using that nl [of t] by (simp add: segment_ok_def not_newline_def)
  then have ok: "list_all segment_ok ?segs"
    using segs by (auto simp: list_all_iff)
  have t: "list_all not_newline ('' '' @ ?t)"
    using t0 strip_subset [of t0] lstrip_subset [of t0]
    by (auto simp: list_all_iff not_newline_def)
  have b: "?segs = [] \<or> \<not> list_all isspace ('' '' @ ?t)"
  proof (cases "segs = []")
    case False
    with blank have "\<not> list_all isspace (lstrip t0)" by (intro lstrip_not_blank) simp
    with False show ?thesis by simp
  qed simp
  have "comment_ok indent ('' '' @ ?t) ?segs ''\<newline>''"
    using i t ok b by (simp add: comment_ok_def tail_ok_def isspace_def whitespace_chars_def)
  then have step: "octothorpe_value (comment_value indent ('' '' @ ?t) ?segs ''\<newline>'')
                   = spaced_comment indent ('' '' @ ?t) ?segs"
    by (rule octothorpe_comment)
  have same_segs: "map spaced_segment ?segs = map spaced_segment segs"
    by (auto simp: spaced_segment_def strip_strip)
  have same_text: "(if ?segs = [] then strip ('' '' @ ?t) else lstrip ('' '' @ ?t)) = ?t"
    by (simp add: strip_strip lstrip_blank lstrip_lstrip)
  have "octothorpe_value (spaced_comment indent t0 segs)
        = octothorpe_value (comment_value indent ('' '' @ ?t) ?segs ''\<newline>'')"
    by (simp only: shape)
  also have "\<dots> = spaced_comment indent ('' '' @ ?t) ?segs"
    by (rule step)
  also have "\<dots> = spaced_comment indent t0 segs"
    by (simp only: spaced_comment_def [of indent "'' '' @ ?t" ?segs] same_segs same_text
        spaced_comment_def [of indent t0 segs])
  finally show ?thesis .
qed

lemma octothorpe_repeated:
  assumes "comment_ok indent t0 segs tail"
  shows "(octothorpe_value ^^ Suc n) (comment_value indent t0 segs tail)
         = spaced_comment indent t0 segs"
proof (induction n)
  case 0
  then show ?case using octothorpe_comment [OF assms] by simp
next
  case (Suc n)
  then show ?case using octothorpe_spaced [OF assms] by simp
qed

subsection \<open>The tree walker\<close>

lemma fold_octothorpe: "fold ensure_space_after_octothorpe cs s = fold rewrite (present cs) s"
  by (induction cs arbitrary: s rule: present.induct)
    (simp_all add: ensure_space_after_octothorpe_def rewrite_def)

lemma ensure_space_slot_refs: "ensure_space_slot sl s = fold rewrite (slot_refs sl) s"
proof (cases sl)
  case (Single c)
  then show ?thesis
    by (cases c) (simp_all add: ensure_space_after_octothorpe_def rewrite_def)
next
  case (Group cs)
  then show ?thesis by (simp add: fold_octothorpe)
qed

lemma fold_slots: "fold ensure_space_slot slots s = fold rewrite (concat (map slot_refs slots)) s"
  by (induction slots arbitrary: s) (simp_all add: ensure_space_slot_refs)

lemma ensure_space_comments_ok:
  "list_all iterable atts \<Longrightarrow>
   ensure_space_comments atts s = (fold rewrite (concat (map attachment_refs atts)) s, None)"
proof (induction atts arbitrary: s)
  case Nil
  then show ?case by simp
next
  case (Cons att atts)
  then show ?case by (cases att) (simp_all add: fold_slots)
qed

lemma ensure_space_comments_raises:
  "snd (ensure_space_comments atts s) = (if list_all iterable atts then None else Some TypeError)"
proof (induction atts arbitrary: s)
  case Nil
  then show ?case by simp
next
  case (Cons att atts)
  then show ?case by (cases att) simp_all
qed

lemma registry_walk:
  "registry_ok (Some items) \<Longrightarrow>
   ensure_space_comments (map snd items) s = (fold rewrite (registry_refs (Some items)) s, None)"
proof -
  assume "registry_ok (Some items)"
  then have "list_all iterable (map snd items)" by (simp add: list_all_iff)
  then have "ensure_space_comments (map snd items) s
             = (fold rewrite (concat (map attachment_refs (map snd items))) s, None)"
    by (rule ensure_space_comments_ok)
  then show ?thesis by (simp add: comp_def)
qed

lemma registry_raises:
  "snd (ensure_space_comments (map snd items) s)
   = (if registry_ok (Some items) then None else Some TypeError)"
  by (simp add: ensure_space_comments_raises list_all_iff)

lemma walk_commented:
  "commented d \<and> attachments_ok d \<longrightarrow>
     update_yaml_comments d s = (fold rewrite (token_refs d) s, None)"
  "commented_values xs \<and> attachments_ok_values xs \<longrightarrow>
     update_values xs s = (fold rewrite (token_refs_values xs) s, None)"
  "commented_items kvs \<and> attachments_ok_items kvs \<longrightarrow>
     update_items kvs s = (fold rewrite (token_refs_items kvs) s, None)"
proof (induction d s and xs s and kvs s
    rule: update_yaml_comments_update_values_update_items.induct)
  case (1 items kvs s)
  then show ?case by (auto simp: registry_walk)
next
  case (2 items xs s)
  then show ?case by (auto simp: registry_walk)
next
  case (5 entry entries s)
  then show ?case by (cases entry) auto
next
  case (7 k entry entries s)
  then show ?case by (cases entry) auto
qed simp_all

lemma fold_rewrite_count:
  "fold rewrite as s = (\<lambda>a. (octothorpe_value ^^ count_list as a) (s a))"
proof (induction as arbitrary: s)
  case Nil
  then show ?case by simp
next
  case (Cons x as)
  show ?case
  proof
    fix a
    show "fold rewrite (x # as) s a = (octothorpe_value ^^ count_list (x # as) a) (s a)"
      by (simp add: Cons.IH rewrite_def funpow_swap1)
  qed
qed

lemma walk_outcome:
  "(snd (update_yaml_comments d s) = None \<longleftrightarrow> commented d \<and> attachments_ok d)
   \<and> (attachments_ok d \<and> \<not> commented d \<longrightarrow> snd (update_yaml_comments d s) = Some AttributeError)"
  "(snd (update_values xs s) = None \<longleftrightarrow> commented_values xs \<and> attachments_ok_values xs)
   \<and> (attachments_ok_values xs \<and> \<not> commented_values xs
        \<longrightarrow> snd (update_values xs s) = Some AttributeError)"
  "(snd (update_items kvs s) = None \<longleftrightarrow> commented_items kvs \<and> attachments_ok_items kvs)
   \<and> (attachments_ok_items kvs \<and> \<not> commented_items kvs
        \<longrightarrow> snd (update_items kvs s) = Some AttributeError)"
proof (induction d s and xs s and kvs s
    rule: update_yaml_comments_update_values_update_items.induct)
  case (1 items kvs s)
  show ?case
  proof (cases "registry_ok (Some items)")
    case True
    then show ?thesis using 1 [of "fold rewrite (registry_refs (Some items)) s" None]
      by (simp add: registry_walk del: registry_ok.simps registry_refs.simps)
  next
    case False
    obtain s' e where r: "ensure_space_comments (map snd items) s = (s', e)"
      by (cases "ensure_space_comments (map snd items) s")
    then have "e = Some TypeError" using registry_raises [of items s] False by simp
    with r False show ?thesis by (simp del: registry_ok.simps)
  qed
next
  case (2 items xs s)
  show ?case
  proof (cases "registry_ok (Some items)")
    case True
    then show ?thesis using 2 [of "fold rewrite (registry_refs (Some items)) s" None]
      by (simp add: registry_walk del: registry_ok.simps registry_refs.simps)
  next
    case False
    obtain s' e where r: "ensure_space_comments (map snd items) s = (s', e)"
      by (cases "ensure_space_comments (map snd items) s")
    then have "e = Some TypeError" using registry_raises [of items s] False by simp
    with r False show ?thesis by (simp del: registry_ok.simps)
  qed
next
  case (5 entry entries s)
  show ?case
  proof (cases "is_dict_or_list entry")
    case True
    obtain s' e where r: "update_yaml_comments entry s = (s', e)"
      by (cases "update_yaml_comments entry s")
    show ?thesis
    proof (cases e)
      case None
      with True r 5(1) 5(2) [of s' None] show ?thesis by auto
    next
      case (Some err)
      with True r 5(1) show ?thesis by auto
    qed
  next
    case False
    with 5(3) show ?thesis by (cases entry) auto
  qed
next
  case (7 k entry entries s)
  show ?case
  proof (cases "is_dict_or_list entry")
    case True
    obtain s' e where r: "update_yaml_comments entry s = (s', e)"
      by (cases "update_yaml_comments entry s")
    show ?thesis
    proof (cases e)
      case None
      with True r 7(1) 7(2) [of s' None] show ?thesis by auto
    next
      case (Some err)
      with True r 7(1) show ?thesis by auto
    qed
  next
    case False
    with 7(3) show ?thesis by (cases entry) auto
  qed
qed simp_all

lemma walk_stops_items:
  "snd (update_items kvs s) \<noteq> None \<Longrightarrow> update_items (kvs @ rest) s = update_items kvs s"
proof (induction kvs arbitrary: s)
  case Nil
  then show ?case by simp
next
  case (Cons kv kvs)
  obtain k entry where kv: "kv = (k, entry)" by (cases kv)
  show ?case
  proof (cases "is_dict_or_list entry")
    case True
    obtain s' e where r: "update_yaml_comments entry s = (s', e)"
      by (cases "update_yaml_comments entry s")
    with Cons kv True show ?thesis by (cases e) auto
  next
    case False
    with Cons kv show ?thesis by auto
  qed
qed

lemma walk_stops_values:
  "snd (update_values xs s) \<noteq> None \<Longrightarrow> update_values (xs @ rest) s = update_values xs s"
proof (induction xs arbitrary: s)
  case Nil
  then show ?case by simp
next
  case (Cons entry xs)
  show ?case
  proof (cases "is_dict_or_list entry")
    case True
    obtain s' e where r: "update_yaml_comments entry s = (s', e)"
      by (cases "update_yaml_comments entry s")
    with Cons True show ?thesis by (cases e) auto
  next
    case False
    with Cons show ?thesis by auto
  qed
qed

subsection \<open>The quoting pass\<close>

lemma quote_value_quotable:
  "is_str_or_number v \<or> is_list v \<Longrightarrow> quote_value repr v = Inr (quoted repr v)"
  by (cases v) (simp_all add: quote_value_def quoted_def)

lemma quote_value_quoted: "quote_value repr (quoted repr v) = Inr (quoted repr v)"
  by (simp add: quote_value_def quoted_def comp_def)

lemma data_quoted: "data (quoted repr v) = quoted repr v"
proof -
  have "data_values (map (\<lambda>x. DQ (py_str repr x)) xs) = map (\<lambda>x. DQ (py_str repr x)) xs" for xs
    by (induction xs) simp_all
  then show ?thesis by (simp add: quoted_def)
qed

lemma quote_items_quotable:
  "list_all (\<lambda>kv. is_str_or_number (snd kv) \<or> is_list (snd kv)) kvs \<Longrightarrow>
   quote_items repr kvs = (map (\<lambda>(k, v). (k, quoted repr v)) kvs, None)"
  by (induction kvs) (auto simp: quote_value_quotable)

lemma quote_entry_quotable:
  "quotable_record rec \<Longrightarrow>
   \<exists>r. quote_entry repr rec = (Map r (map (\<lambda>(k, v). (k, quoted repr v)) (fields rec)), None)"
  by (cases rec) (simp_all add: quote_items_quotable)

lemma data_items_quoted:
  "data_items (map (\<lambda>(k, v). (k, quoted repr v)) kvs) = map (\<lambda>(k, v). (k, quoted repr v)) kvs"
  by (induction kvs) (auto simp: data_quoted)

lemma quote_entries_quotable:
  "list_all quotable_record recs \<Longrightarrow>
   \<exists>recs'. quote_entries repr recs = (recs', None)
     \<and> map fields (data_values recs')
         = map (\<lambda>rec. map (\<lambda>(k, v). (k, quoted repr v)) (fields rec)) recs"
proof (induction recs)
  case Nil
  then show ?case by simp
next
  case (Cons rec recs)
  then obtain r where "quote_entry repr rec
      = (Map r (map (\<lambda>(k, v). (k, quoted repr v)) (fields rec)), None)"
    using quote_entry_quotable [of rec repr] by auto
  moreover obtain recs' where "quote_entries repr recs = (recs', None)"
    "map fields (data_values recs')
       = map (\<lambda>rec. map (\<lambda>(k, v). (k, quoted repr v)) (fields rec)) recs"
    using Cons by auto
  ultimately show ?case by (simp add: data_items_quoted)
qed

lemma map_of_put_item: "map_of kvs k = Some x \<Longrightarrow> map_of (put_item k v kvs) k = Some v"
  by (induction kvs) (auto split: if_splits)

lemma map_of_data_items: "map_of (data_items kvs) k = map_option data (map_of kvs k)"
  by (induction kvs) auto

subsection \<open>File names\<close>

lemma join_plain:
  "path \<noteq> [] \<Longrightarrow> last path \<noteq> CHR ''/'' \<Longrightarrow> b \<noteq> [] \<Longrightarrow> hd b \<noteq> CHR ''/'' \<Longrightarrow>
   join_component path b = path @ ''/'' @ b"
  by (simp add: join_component_def)

lemma plain_name_ends:
  "plain_name s \<Longrightarrow> s \<noteq> [] \<and> hd s \<noteq> CHR ''/'' \<and> last s \<noteq> CHR ''/''"
  unfolding plain_name_def by (metis last_in_set hd_in_set)

lemma plain_name_replace_spaces: "plain_name c \<Longrightarrow> plain_name (replace_spaces c)"
  by (auto simp: plain_name_def replace_spaces_def)

lemma test_file_names:
  assumes "plain_name v" and "plain_name c"
  shows "get_test_files (Some v) x c i =
     Inr (''tests/'' @ v @ ''/'' @ replace_spaces c @ ''/'' @ v @ ''_'' @ replace_spaces c
            @ (if i > 1 then str_int i else []) @ ''.raw'',
          ''ntc_templates/templates/'' @ v @ ''_'' @ replace_spaces c @ ''.textfsm'')"
proof -
  let ?c = "replace_spaces c"
  let ?raw = "v @ ''_'' @ ?c @ (if i > 1 then str_int i else []) @ ''.raw''"
  let ?tpl = "v @ ''_'' @ ?c @ ''.textfsm''"
  note v = plain_name_ends [OF assms(1)]
  note c = plain_name_ends [OF plain_name_replace_spaces [OF assms(2)]]
  have 1: "join_component ''tests'' v = ''tests/'' @ v"
    using v by (subst join_plain) auto
  have 2: "join_component (''tests/'' @ v) ?c = ''tests/'' @ v @ ''/'' @ ?c"
    using v c by (subst join_plain) auto
  have 3: "join_component (''tests/'' @ v @ ''/'' @ ?c) ?raw = ''tests/'' @ v @ ''/'' @ ?c @ ''/'' @ ?raw"
    using v c by (subst join_plain) auto
  have 4: "join_component ''ntc_templates'' ''templates'' = ''ntc_templates/templates''"
    by (simp add: join_component_def)
  have 5: "join_component ''ntc_templates/templates'' ?tpl = ''ntc_templates/templates/'' @ ?tpl"
    using v by (subst join_plain) auto
  show ?thesis
  proof (cases "1 < i")
    case True
    with 1 2 3 4 5 show ?thesis
      by (simp add: get_test_files_def os_path_join_def Let_def)
  next
    case False
    with 1 2 3 4 5 show ?thesis
      by (simp add: get_test_files_def os_path_join_def Let_def)
  qed
qed

subsection \<open>The writer\<close>

lemma ensure_yaml_standards_walked:
  assumes "map_of kvs (Name ''parsed_sample'') = Some sample"
    and "quote_sample repr sample = (sample', None)"
    and "update_yaml_comments (Map r (put_item (Name ''parsed_sample'') sample' kvs)) s
         = (s', walk_error)"
  shows "ensure_yaml_standards repr dump writable (Map r kvs) s output_path
         = (if walk_error = None \<or> walk_error = Some AttributeError
            then write_file dump writable
                   (Map r (put_item (Name ''parsed_sample'') sample' kvs)) s' output_path
            else \<lparr>document = Map r (put_item (Name ''parsed_sample'') sample' kvs),
                  comments = s', written = None, raised = walk_error\<rparr>)"
proof (cases walk_error)
  case None
  with assms show ?thesis by simp
next
  case (Some err)
  with assms show ?thesis by (cases err) simp_all
qed

lemma ensure_yaml_standards_quoted:
  assumes "map_of kvs (Name ''parsed_sample'') = Some sample"
    and "quote_sample repr sample = (sample', None)"
  shows "document (ensure_yaml_standards repr dump writable (Map r kvs) s output_path)
         = Map r (put_item (Name ''parsed_sample'') sample' kvs)"
proof -
  obtain s' walk_error
    where "update_yaml_comments (Map r (put_item (Name ''parsed_sample'') sample' kvs)) s
           = (s', walk_error)"
    by (cases "update_yaml_comments (Map r (put_item (Name ''parsed_sample'') sample' kvs)) s")
  from ensure_yaml_standards_walked [OF assms this, of dump writable output_path]
  show ?thesis by (simp add: write_file_def)
qed

section \<open>The claims\<close>

text \<open>
  C3: on the remark \<open>"comment 11\n#        comment 12\n#comment 13\n"\<close> the normalizer
  returns \<open>"comment 11\n# comment 12\n# comment 13"\<close>.
\<close>

theorem docstring_example:
  "ensure_spacing_for_multiline_comment
     ''comment 11\<newline>#        comment 12\<newline>#comment 13\<newline>''
   = ''comment 11\<newline># comment 12\<newline># comment 13''"
  by code_simp

text \<open>
  C1 (as amended): a remark in normalized form is returned as it is, with its leading
  space and, when it has at least one marker line, also without it; and applying the
  normalizer twice is applying it once on every remark whose lines after the first are
  blank or begin, after optional whitespace, with the marker. Idempotence does not hold
  for every string: see the counterexample, where a line without marker stands between
  two marker lines.
\<close>

theorem normalizer_idempotent:
  "(list_all trimmed_line (t0 # ts) \<longrightarrow>
      ensure_spacing_for_multiline_comment (normal_form t0 ts) = normal_form t0 ts
      \<and> (ts \<noteq> [] \<longrightarrow>
           ensure_spacing_for_multiline_comment (t0 @ concat (map (\<lambda>t. ''\<newline># '' @ t) ts))
           = t0 @ concat (map (\<lambda>t. ''\<newline># '' @ t) ts))) \<and>
   (list_all not_newline l \<and> list_all segment_ok segs \<and> tail_ok tail \<longrightarrow>
      ensure_spacing_for_multiline_comment
        (ensure_spacing_for_multiline_comment (comment_remark l segs tail))
      = ensure_spacing_for_multiline_comment (comment_remark l segs tail))"
proof (intro conjI impI)
  assume "list_all trimmed_line (t0 # ts)"
  then show "ensure_spacing_for_multiline_comment (normal_form t0 ts) = normal_form t0 ts"
    by (rule normalizer_normal_form)
next
  assume "list_all trimmed_line (t0 # ts)" and "ts \<noteq> []"
  then show "ensure_spacing_for_multiline_comment (t0 @ concat (map (\<lambda>t. ''\<newline># '' @ t) ts))
             = t0 @ concat (map (\<lambda>t. ''\<newline># '' @ t) ts)"
    by (intro normalizer_fixed_marker_lines) (simp_all add: trimmed_line_def)
next
  assume h: "list_all not_newline l \<and> list_all segment_ok segs \<and> tail_ok tail"
  show "ensure_spacing_for_multiline_comment
          (ensure_spacing_for_multiline_comment (comment_remark l segs tail))
        = ensure_spacing_for_multiline_comment (comment_remark l segs tail)"
  proof (cases "segs = []")
    case True
    then have "comment_remark l segs tail = l @ tail" by (simp add: comment_remark_def)
    then show ?thesis using h normalizer_twice_single_line [of l tail] by simp
  next
    case False
    with h show ?thesis by (intro normalizer_twice) auto
  qed
qed

theorem normalizer_idempotent_witness:
  "list_all trimmed_line [''comment 11'', ''comment 12'', ''comment 13'']
   \<and> ensure_spacing_for_multiline_comment '' comment 11\<newline># comment 12\<newline># comment 13''
       = '' comment 11\<newline># comment 12\<newline># comment 13''
   \<and> ensure_spacing_for_multiline_comment ''comment 11\<newline># comment 12\<newline># comment 13''
       = ''comment 11\<newline># comment 12\<newline># comment 13''
   \<and> list_all not_newline ''comment 11''
   \<and> list_all segment_ok [([], ''        comment 12''), (''  '', ''comment 13  '')]
   \<and> tail_ok ''\<newline>''
   \<and> ensure_spacing_for_multiline_comment
        (ensure_spacing_for_multiline_comment
           ''comment 11\<newline>#        comment 12\<newline>  #comment 13  \<newline>'')
       = ensure_spacing_for_multiline_comment
           ''comment 11\<newline>#        comment 12\<newline>  #comment 13  \<newline>''"
proof -
  have 1: "list_all trimmed_line [''comment 11'', ''comment 12'', ''comment 13'']"
    by (simp add: trimmed_line_def trimmed_def not_newline_def isspace_def whitespace_chars_def)
  have 2: "list_all not_newline ''comment 11''
           \<and> list_all segment_ok [([], ''        comment 12''), (''  '', ''comment 13  '')]
           \<and> tail_ok ''\<newline>''"
    by (simp add: segment_ok_def tail_ok_def not_newline_def isspace_def whitespace_chars_def)
  have 3: "normal_form ''comment 11'' [''comment 12'', ''comment 13'']
           = '' comment 11\<newline># comment 12\<newline># comment 13''"
    by (simp add: normal_form_def)
  have 4: "comment_remark ''comment 11''
             [([], ''        comment 12''), (''  '', ''comment 13  '')] ''\<newline>''
           = ''comment 11\<newline>#        comment 12\<newline>  #comment 13  \<newline>''"
    by (simp add: comment_remark_def marker_segment_def)
  show ?thesis
    using 1 2
      normalizer_idempotent [of "''comment 11''" "[''comment 12'', ''comment 13'']"
        "''comment 11''" "[([], ''        comment 12''), (''  '', ''comment 13  '')]" "''\<newline>''"]
    unfolding 3 4 by simp
qed

theorem normalizer_idempotent_counterexample:
  "ensure_spacing_for_multiline_comment
     (ensure_spacing_for_multiline_comment ''\<newline>#\<newline>c \<newline>#'')
   \<noteq> ensure_spacing_for_multiline_comment ''\<newline>#\<newline>c \<newline>#''"
  by code_simp

text \<open>
  C2 (as amended): for a remark made of a first line and \<open>N \<ge> 1\<close> marker segments, each a
  newline, optional whitespace, the marker and a text, the output is the first line
  followed by the same \<open>N\<close> segments, each with its newline and whitespace kept, the
  marker, exactly one space and the text stripped at both ends. The first line and the
  whitespace before a marker are not changed; whitespace after the last segment is
  dropped. So a segment keeps the whitespace before its marker, and an empty segment
  ends with the space after its marker: see the counterexample. The witness is the
  example of the source's comment,
  \<open>[('comment \n#', '      comment2 '), ('\n  #', 'comment3 # 9')]\<close>.
\<close>

theorem normalizer_segments:
  assumes "list_all not_newline t0" and "segs \<noteq> []" and "list_all segment_ok segs"
    and "tail_ok tail"
  shows "ensure_spacing_for_multiline_comment (comment_remark t0 segs tail)
         = t0 @ concat (map spaced_segment segs)"
  using assms by (rule normalizer_on_comment_remark)

theorem normalizer_segments_witness:
  "list_all not_newline ''comment ''
   \<and> [([], ''      comment2 ''), (''  '', ''comment3 # 9'')] \<noteq> []
   \<and> list_all segment_ok [([], ''      comment2 ''), (''  '', ''comment3 # 9'')]
   \<and> tail_ok []
   \<and> ensure_spacing_for_multiline_comment ''comment \<newline>#      comment2 \<newline>  #comment3 # 9''
       = ''comment \<newline># comment2\<newline>  # comment3 # 9''"
proof -
  have 1: "list_all not_newline ''comment ''"
    by (simp add: not_newline_def)
  have 2: "[([]::string, ''      comment2 ''), (''  '', ''comment3 # 9'')] \<noteq> []"
    by simp
  have 3: "list_all segment_ok [([], ''      comment2 ''), (''  '', ''comment3 # 9'')]"
    by (simp add: segment_ok_def not_newline_def isspace_def whitespace_chars_def)
  have 4: "tail_ok []"
    by (simp add: tail_ok_def)
  have 5: "comment_remark ''comment '' [([], ''      comment2 ''), (''  '', ''comment3 # 9'')] []
           = ''comment \<newline>#      comment2 \<newline>  #comment3 # 9''"
    by (simp add: comment_remark_def marker_segment_def)
  have 6: "''comment '' @ concat (map spaced_segment
             [([], ''      comment2 ''), (''  '', ''comment3 # 9'')])
           = ''comment \<newline># comment2\<newline>  # comment3 # 9''"
    by code_simp
  show ?thesis
    using 1 2 3 4 normalizer_segments [OF 1 2 3 4]
    unfolding 5 6 by simp
qed

text \<open>
  The remark \<open>"a\n  #"\<close> has one marker segment, an indented marker without text. Its
  output segment is \<open>"  # "\<close>: with the marker go the two spaces before it and the space
  after it, so the segment is not free of leading and trailing whitespace, with or
  without its indentation.
\<close>

theorem normalizer_segments_counterexample:
  "ensure_spacing_for_multiline_comment ''a\<newline>  #'' = ''a'' @ ''\<newline>'' @ ''  # ''
   \<and> \<not> trimmed ''  # '' \<and> \<not> trimmed ''# ''"
proof -
  have "ensure_spacing_for_multiline_comment ''a\<newline>  #'' = ''a\<newline>  # ''"
    by code_simp
  then show ?thesis
    by (simp add: trimmed_def isspace_def whitespace_chars_def)
qed

text \<open>
  C8: the normalizer is a total function (the search of \<open>findall\<close> terminates, and no
  operation of the source can raise on a string): its result always holds at least the
  space, it is the single space on the empty string and on every string of whitespace,
  and \<open>ensure_space_after_octothorpe\<close> on an absent comment changes no token.
\<close>

theorem normalizer_total:
  "ensure_spacing_for_multiline_comment s \<noteq> []
   \<and> (list_all isspace s \<longrightarrow> ensure_spacing_for_multiline_comment s = '' '')
   \<and> ensure_space_after_octothorpe None st = st"
  by (simp add: normalizer_nonempty normalizer_whitespace ensure_space_after_octothorpe_def)

theorem normalizer_total_witness:
  "list_all isspace '' \<newline>  '' \<and> ensure_spacing_for_multiline_comment '' \<newline>  '' = '' ''
   \<and> list_all isspace [] \<and> ensure_spacing_for_multiline_comment [] = '' ''
   \<and> ensure_space_after_octothorpe None example_store = example_store"
proof -
  have 1: "list_all isspace '' \<newline>  ''" by (simp add: isspace_def whitespace_chars_def)
  show ?thesis
    using 1 normalizer_total [of "'' \<newline>  ''" example_store]
      normalizer_total [of "[]" example_store] by simp
qed

text \<open>
  C4 (as amended): on a document whose mappings and sequences all carry a registry of
  slot lists, \<open>update_yaml_comments\<close> ends without exception, and every token has been
  rewritten by \<open>ensure_space_after_octothorpe\<close> once for every slot that holds it, in a
  single slot or in a nested list, under every key, at every depth; a token held by no
  slot is unchanged. The result depends on the number of slots that hold a token, not
  on the order of the walk. A token whose value is a comment of marker lines, its first
  text not blank when marker lines follow, ends as that comment with exactly one space
  after every marker, however many slots hold it. On the document of the docstrings
  the two comments end as \<open>"# comment 2\n# comment 3\n"\<close> and \<open>"# comment 7\n"\<close>. When the
  walk comes to a mapping or sequence without registry it raises, and the comments of
  the entries after it are not normalized: see the counterexample.
\<close>

theorem walker_rewrites_every_token:
  assumes "commented d" and "attachments_ok d"
  shows "update_yaml_comments d s
           = (\<lambda>a. (octothorpe_value ^^ count_list (token_refs d) a) (s a), None)
         \<and> (a \<in> set (token_refs d) \<and> s a = comment_value indent t0 segs tail
              \<and> comment_ok indent t0 segs tail
            \<longrightarrow> fst (update_yaml_comments d s) a = spaced_comment indent t0 segs)"
proof -
  have walk: "update_yaml_comments d s
              = (\<lambda>a. (octothorpe_value ^^ count_list (token_refs d) a) (s a), None)"
    using assms walk_commented(1) [of d s] by (simp add: fold_rewrite_count)
  have "fst (update_yaml_comments d s) a = spaced_comment indent t0 segs"
    if "a \<in> set (token_refs d)" and v: "s a = comment_value indent t0 segs tail"
      and ok: "comment_ok indent t0 segs tail"
  proof -
    from that(1) have "count_list (token_refs d) a \<noteq> 0"
      by (simp add: count_list_0_iff)
    then obtain n where "count_list (token_refs d) a = Suc n"
      by (cases "count_list (token_refs d) a") auto
    then show ?thesis
      using octothorpe_repeated [OF ok, of n] by (simp only: walk v fst_conv)
  qed
  with walk show ?thesis by blast
qed

theorem walker_rewrites_every_token_witness:
  "commented example_document \<and> attachments_ok example_document
   \<and> 0 \<in> set (token_refs example_document)
   \<and> example_store 0 = comment_value [] ''comment 2'' [([], ''comment 3'')] ''\<newline>''
   \<and> comment_ok [] ''comment 2'' [([], ''comment 3'')] ''\<newline>''
   \<and> snd (update_yaml_comments example_document example_store) = None
   \<and> fst (update_yaml_comments example_document example_store) 0
       = ''# comment 2\<newline># comment 3\<newline>''
   \<and> fst (update_yaml_comments example_document example_store) 1 = ''# comment 7\<newline>''
   \<and> fst (update_yaml_comments example_document example_store) 2 = example_store 2
   \<and> commented aliased_document \<and> attachments_ok aliased_document
   \<and> count_list (token_refs aliased_document) 2 = 2
   \<and> fst (update_yaml_comments aliased_document example_store) 2 = ''# #\<newline>''"
proof -
  have 1: "commented example_document" "attachments_ok example_document"
    by (simp_all add: example_document_def)
  have 2: "0 \<in> set (token_refs example_document)"
    by (simp add: example_document_def)
  have 3: "example_store 0 = comment_value [] ''comment 2'' [([], ''comment 3'')] ''\<newline>''"
    by (simp add: example_store_def comment_value_def comment_remark_def marker_segment_def)
  have 4: "comment_ok [] ''comment 2'' [([], ''comment 3'')] ''\<newline>''"
    by (simp add: comment_ok_def segment_ok_def tail_ok_def not_newline_def isspace_def
        whitespace_chars_def)
  have 5: "spaced_comment [] ''comment 2'' [([], ''comment 3'')]
           = ''# comment 2\<newline># comment 3\<newline>''"
    by code_simp
  have 6: "(octothorpe_value ^^ count_list (token_refs example_document) 1) (example_store 1)
           = ''# comment 7\<newline>''"
    by code_simp
  have 7: "(octothorpe_value ^^ count_list (token_refs example_document) 2) (example_store 2)
           = example_store 2"
    by code_simp
  have 8: "commented aliased_document" "attachments_ok aliased_document"
    by (simp_all add: aliased_document_def)
  have 9: "count_list (token_refs aliased_document) 2 = 2"
    by (simp add: aliased_document_def)
  have 10: "(octothorpe_value ^^ 2) (example_store 2) = ''# #\<newline>''"
    by code_simp
  note e = walker_rewrites_every_token [OF 1, of example_store 0 "[]" "''comment 2''"
      "[([], ''comment 3'')]" "''\<newline>''"]
  note a = walker_rewrites_every_token [OF 8, of example_store]
  have "fst (update_yaml_comments example_document example_store) 0
        = spaced_comment [] ''comment 2'' [([], ''comment 3'')]"
    using e 2 3 4 by blast
  then have "fst (update_yaml_comments example_document example_store) 0
        = ''# comment 2\<newline># comment 3\<newline>''"
    by (simp only: 5)
  moreover have "fst (update_yaml_comments example_document example_store) 1
                 = ''# comment 7\<newline>''"
    using e 6 by simp
  moreover have "fst (update_yaml_comments example_document example_store) 2 = example_store 2"
    using e 7 by simp
  moreover have "snd (update_yaml_comments example_document example_store) = None"
    using e by simp
  moreover have "fst (update_yaml_comments aliased_document example_store) 2 = ''# #\<newline>''"
    using a 9 10 by simp
  ultimately show ?thesis
    using 1 2 3 4 8 9 by simp
qed

text \<open>
  In \<open>plain_list_document\<close> the list under \<open>c\<close> has no registry. The walk normalizes the
  comment of the root, raises at \<open>c\<close>, and the comment in the mapping under \<open>d\<close> stays
  \<open>"#comment 7\n"\<close>.
\<close>

theorem walker_stops_counterexample:
  "snd (update_yaml_comments plain_list_document example_store) = Some AttributeError
   \<and> fst (update_yaml_comments plain_list_document example_store) 0
       = ''# comment 2\<newline># comment 3\<newline>''
   \<and> fst (update_yaml_comments plain_list_document example_store) 1 = ''#comment 7\<newline>''
   \<and> 1 \<in> set (token_refs plain_list_document)"
  by code_simp

text \<open>
  C5 (as amended): \<open>update_yaml_comments\<close> called on a scalar, or on a mapping or sequence
  without registry, raises \<open>AttributeError\<close> and changes nothing. It ends without
  exception exactly on the documents whose mappings and sequences all carry a registry
  of slot lists, scalar entries being skipped; with such registries wherever there is
  one, a mapping or sequence without registry anywhere in the document makes it raise
  \<open>AttributeError\<close>. When the walk of the entries raises, the entries after the failing
  one are not visited: whatever follows them, the outcome is the same.
\<close>

theorem walker_raises_without_registry:
  "(\<not> is_dict_or_list d \<longrightarrow> update_yaml_comments d s = (s, Some AttributeError))
   \<and> update_yaml_comments (Map None kvs) s = (s, Some AttributeError)
   \<and> update_yaml_comments (Seq None xs) s = (s, Some AttributeError)
   \<and> (snd (update_yaml_comments d s) = None \<longleftrightarrow> commented d \<and> attachments_ok d)
   \<and> (attachments_ok d \<and> \<not> commented d
        \<longrightarrow> snd (update_yaml_comments d s) = Some AttributeError)
   \<and> (snd (update_yaml_comments (Map r kvs) s) \<noteq> None
        \<longrightarrow> update_yaml_comments (Map r (kvs @ more_items)) s
            = update_yaml_comments (Map r kvs) s)
   \<and> (snd (update_yaml_comments (Seq r xs) s) \<noteq> None
        \<longrightarrow> update_yaml_comments (Seq r (xs @ more_values)) s
            = update_yaml_comments (Seq r xs) s)"
proof -
  have scalar: "\<not> is_dict_or_list d \<longrightarrow> update_yaml_comments d s = (s, Some AttributeError)"
    by (cases d) simp_all
  have stop_items: "update_yaml_comments (Map r (kvs @ more_items)) s
               = update_yaml_comments (Map r kvs) s"
    if "snd (update_yaml_comments (Map r kvs) s) \<noteq> None"
  proof (cases r)
    case None
    then show ?thesis by simp
  next
    case (Some items)
    obtain s' e where c: "ensure_space_comments (map snd items) s = (s', e)"
      by (cases "ensure_space_comments (map snd items) s")
    show ?thesis
    proof (cases e)
      case None
      with that Some c have "snd (update_items kvs s') \<noteq> None" by simp
      then have "update_items (kvs @ more_items) s' = update_items kvs s'"
        by (rule walk_stops_items)
      with Some c None show ?thesis by simp
    next
      case (Some err)
      with \<open>r = Some items\<close> c show ?thesis by simp
    qed
  qed
  have stop_values: "update_yaml_comments (Seq r (xs @ more_values)) s
                = update_yaml_comments (Seq r xs) s"
    if "snd (update_yaml_comments (Seq r xs) s) \<noteq> None"
  proof (cases r)
    case None
    then show ?thesis by simp
  next
    case (Some items)
    obtain s' e where c: "ensure_space_comments (map snd items) s = (s', e)"
      by (cases "ensure_space_comments (map snd items) s")
    show ?thesis
    proof (cases e)
      case None
      with that Some c have "snd (update_values xs s') \<noteq> None" by simp
      then have "update_values (xs @ more_values) s' = update_values xs s'"
        by (rule walk_stops_values)
      with Some c None show ?thesis by simp
    next
      case (Some err)
      with \<open>r = Some items\<close> c show ?thesis by simp
    qed
  qed
  show ?thesis
    using scalar stop_items stop_values walk_outcome(1) [of d s] by simp
qed

theorem walker_raises_without_registry_witness:
  "\<not> is_dict_or_list (Str ''a'')
   \<and> update_yaml_comments (Str ''a'') example_store = (example_store, Some AttributeError)
   \<and> commented example_document \<and> attachments_ok example_document
   \<and> snd (update_yaml_comments example_document example_store) = None
   \<and> attachments_ok plain_list_document \<and> \<not> commented plain_list_document
   \<and> snd (update_yaml_comments plain_list_document example_store) = Some AttributeError
   \<and> snd (update_yaml_comments
        (Map (Some []) [(Name ''a'', DQ ''x''), (Name ''b'', Seq None [DQ ''1''])]) example_store)
       \<noteq> None
   \<and> update_yaml_comments
        (Map (Some []) ([(Name ''a'', DQ ''x''), (Name ''b'', Seq None [DQ ''1''])]
           @ [(Name ''c'', Map (Some [(Name ''k'', Slots [Single (Some 1)])]) [])])) example_store
       = update_yaml_comments
           (Map (Some []) [(Name ''a'', DQ ''x''), (Name ''b'', Seq None [DQ ''1''])]) example_store"
proof -
  have 1: "\<not> is_dict_or_list (Str ''a'')" by simp
  have 2: "commented example_document" "attachments_ok example_document"
    by (simp_all add: example_document_def)
  have 3: "attachments_ok plain_list_document" "\<not> commented plain_list_document"
    by (simp_all add: plain_list_document_def)
  have 4: "snd (update_yaml_comments
             (Map (Some []) [(Name ''a'', DQ ''x''), (Name ''b'', Seq None [DQ ''1''])])
             example_store) \<noteq> None"
    by simp
  show ?thesis
    using 1 2 3 4
      walker_raises_without_registry [where d = "Str ''a''" and s = example_store]
      walker_raises_without_registry [where d = example_document and s = example_store]
      walker_raises_without_registry [where d = plain_list_document and s = example_store]
      walker_raises_without_registry [where s = example_store and r = "Some []"
        and kvs = "[(Name ''a'', DQ ''x''), (Name ''b'', Seq None [DQ ''1''])]"
        and more_items = "[(Name ''c'', Map (Some [(Name ''k'', Slots [Single (Some 1)])]) [])]"]
    by blast
qed

text \<open>
  The root has a registry, its entry \<open>b\<close> is a list without one: the call raises, and the
  comment of the entry \<open>c\<close> after it, token 1, is as it was.
\<close>

theorem walker_tolerance_counterexample:
  "snd (update_yaml_comments
     (Map (Some []) [(Name ''a'', DQ ''x''), (Name ''b'', Seq None [DQ ''1'']),
                     (Name ''c'', Map (Some [(Name ''k'', Slots [Single (Some 1)])]) [])])
     example_store) = Some AttributeError
   \<and> fst (update_yaml_comments
     (Map (Some []) [(Name ''a'', DQ ''x''), (Name ''b'', Seq None [DQ ''1'']),
                     (Name ''c'', Map (Some [(Name ''k'', Slots [Single (Some 1)])]) [])])
     example_store) 1 = ''#comment 7\<newline>''"
  by code_simp

text \<open>
  C9 (as amended): for a vendor (the module's \<open>vendor_os\<close>) and a command that are plain
  names, the raw file is \<open>tests/{vendor}/{command}/{vendor}_{command}{index}.raw\<close>, the index
  appended when it is greater than 1, spaces of the command written as underscores; the
  template file is \<open>ntc_templates/templates/{vendor}_{command}.textfsm\<close>, never with the
  index.
\<close>

theorem raw_file_carries_the_index:
  assumes "plain_name v" and "plain_name c"
  shows "get_test_files (Some v) x c i =
     Inr (''tests/'' @ v @ ''/'' @ replace_spaces c @ ''/'' @ v @ ''_'' @ replace_spaces c
            @ (if i > 1 then str_int i else []) @ ''.raw'',
          ''ntc_templates/templates/'' @ v @ ''_'' @ replace_spaces c @ ''.textfsm'')"
  using assms by (rule test_file_names)

theorem raw_file_carries_the_index_witness:
  "plain_name ''cisco_ios'' \<and> plain_name ''show version''
   \<and> get_test_files (Some ''cisco_ios'') ''cisco_ios'' ''show version'' 12 =
       Inr (''tests/cisco_ios/show_version/cisco_ios_show_version12.raw'',
            ''ntc_templates/templates/cisco_ios_show_version.textfsm'')"
proof -
  have 1: "plain_name ''cisco_ios''" by (simp add: plain_name_def)
  have 2: "plain_name ''show version''" by (simp add: plain_name_def)
  have 3: "str_int 12 = ''12''" by code_simp
  show ?thesis
    using 1 2 3 raw_file_carries_the_index [OF 1 2, of "''cisco_ios''" 12]
    by (simp add: replace_spaces_def)
qed

theorem template_file_index_counterexample:
  "get_test_files (Some ''cisco_ios'') ''cisco_ios'' ''show version'' 2 =
     Inr (''tests/cisco_ios/show_version/cisco_ios_show_version2.raw'',
          ''ntc_templates/templates/cisco_ios_show_version.textfsm'')"
  by code_simp

text \<open>
  C10: the result of \<open>get_test_files\<close> does not depend on its first argument: the body
  reads the module's \<open>vendor_os\<close>, and raises \<open>NameError\<close> when that name is not bound.
\<close>

theorem vendor_argument_ignored:
  "get_test_files global_vendor_os v1 command index
     = get_test_files global_vendor_os v2 command index
   \<and> get_test_files None v1 command index = Inl NameError"
  by (simp add: get_test_files_def)

theorem vendor_argument_ignored_witness:
  "get_test_files (Some ''cisco_ios'') ''huawei_vrp'' ''show version'' 1
     = get_test_files (Some ''cisco_ios'') ''cisco_ios'' ''show version'' 1
   \<and> get_test_files None ''huawei_vrp'' ''show version'' 1 = Inl NameError"
  using vendor_argument_ignored
    [of "Some ''cisco_ios''" "''huawei_vrp''" "''show version''" 1 "''cisco_ios''"]
  by simp

text \<open>
  C7: when \<open>parsed_sample\<close> holds a list of records whose values are strings, numbers or
  lists, the document that \<open>ensure_yaml_standards\<close> leaves has, under \<open>parsed_sample\<close>, the
  same records in the same order with the same field names, each string or number
  replaced by its \<open>DQ\<close> wrapper and each list by the list of the wrappers of its elements.
\<close>

theorem quoting_pass:
  assumes "map_of kvs (Name ''parsed_sample'') = Some (Seq r' recs)"
    and "list_all quotable_record recs"
  shows "sample_fields
           (document (ensure_yaml_standards repr dump writable (Map r kvs) s output_path))
         = map (\<lambda>rec. map (\<lambda>(k, v). (k, quoted repr v)) (fields rec)) recs"
proof -
  obtain recs' where q: "quote_entries repr recs = (recs', None)"
    and f: "map fields (data_values recs')
            = map (\<lambda>rec. map (\<lambda>(k, v). (k, quoted repr v)) (fields rec)) recs"
    using quote_entries_quotable [OF assms(2), of repr] by auto
  let ?q = "Map r (put_item (Name ''parsed_sample'') (Seq r' recs') kvs)"
  have qs: "quote_sample repr (Seq r' recs) = (Seq r' recs', None)"
    using q by simp
  have "document (ensure_yaml_standards repr dump writable (Map r kvs) s output_path) = ?q"
    by (rule ensure_yaml_standards_quoted [OF assms(1) qs])
  moreover have "map_of (data_items (put_item (Name ''parsed_sample'') (Seq r' recs') kvs))
                   (Name ''parsed_sample'') = Some (Seq None (data_values recs'))"
    using map_of_put_item [OF assms(1), of "Seq r' recs'"] by (simp add: map_of_data_items)
  ultimately show ?thesis
    using f by (simp add: sample_fields_def)
qed

theorem quoting_pass_witness:
  "map_of [(Name ''parsed_sample'',
            Seq None [Map None [(Name ''a'', Str ''x''), (Name ''b'', Seq None [Str ''1'', Num 2])],
                      Map None [(Name ''a'', Num 10), (Name ''b'', Seq None [])]])]
     (Name ''parsed_sample'')
     = Some (Seq None [Map None [(Name ''a'', Str ''x''), (Name ''b'', Seq None [Str ''1'', Num 2])],
                       Map None [(Name ''a'', Num 10), (Name ''b'', Seq None [])]])
   \<and> list_all quotable_record
        [Map None [(Name ''a'', Str ''x''), (Name ''b'', Seq None [Str ''1'', Num 2])],
         Map None [(Name ''a'', Num 10), (Name ''b'', Seq None [])]]
   \<and> sample_fields (document (ensure_yaml_standards (\<lambda>v. ''[]'') (\<lambda>d s. ''---'') (\<lambda>p. True)
        (Map None [(Name ''parsed_sample'',
            Seq None [Map None [(Name ''a'', Str ''x''), (Name ''b'', Seq None [Str ''1'', Num 2])],
                      Map None [(Name ''a'', Num 10), (Name ''b'', Seq None [])]])])
        example_store ''out.yml''))
      = [[(Name ''a'', DQ ''x''), (Name ''b'', Seq None [DQ ''1'', DQ ''2''])],
         [(Name ''a'', DQ ''10''), (Name ''b'', Seq None [])]]"
proof -
  let ?recs = "[Map None [(Name ''a'', Str ''x''), (Name ''b'', Seq None [Str ''1'', Num 2])],
                Map None [(Name ''a'', Num 10), (Name ''b'', Seq None [])]]"
  have 1: "map_of [(Name ''parsed_sample'', Seq None ?recs)] (Name ''parsed_sample'')
           = Some (Seq None ?recs)"
    by simp
  have 2: "list_all quotable_record ?recs" by simp
  have 3: "str_int 2 = ''2''" "str_int 10 = ''10''" by code_simp+
  show ?thesis
    using 1 2 3
      quoting_pass [OF 1 2, where repr = "\<lambda>v. ''[]''" and dump = "\<lambda>d s. ''---''"
        and writable = "\<lambda>p. True" and r = None and s = example_store
        and output_path = "''out.yml''"]
    by (simp add: quoted_def)
qed

text \<open>
  C6 (as amended): \<open>ensure_yaml_standards\<close> on a mapping without the key \<open>parsed_sample\<close>
  raises \<open>KeyError\<close> with the object and the comments unchanged and nothing written; an
  exception of the quoting pass is raised to the caller before any comment is
  normalized and nothing is written. Of the exceptions of the comment walk it
  suppresses exactly \<open>AttributeError\<close>: after it, as after a walk without exception, the
  file is written with the comments as the walk left them, and the only exception left
  is that of opening the file; any other exception of the walk is raised to the caller
  and nothing is written. That \<open>AttributeError\<close> is raised at every mapping or sequence
  without registry, the root or one met later in the walk, so that the document need
  not be without comment metadata: see the counterexample.
\<close>

theorem writer_errors:
  "(map_of kvs (Name ''parsed_sample'') = None \<longrightarrow>
      ensure_yaml_standards repr dump writable (Map r kvs) s output_path
      = \<lparr>document = Map r kvs, comments = s, written = None, raised = Some KeyError\<rparr>)
   \<and> (map_of kvs (Name ''parsed_sample'') = Some sample
        \<and> snd (quote_sample repr sample) = Some e \<longrightarrow>
      raised (ensure_yaml_standards repr dump writable (Map r kvs) s output_path) = Some e
      \<and> written (ensure_yaml_standards repr dump writable (Map r kvs) s output_path) = None
      \<and> comments (ensure_yaml_standards repr dump writable (Map r kvs) s output_path) = s)
   \<and> (map_of kvs (Name ''parsed_sample'') = Some sample
        \<and> quote_sample repr sample = (sample', None)
        \<and> update_yaml_comments (Map r (put_item (Name ''parsed_sample'') sample' kvs)) s
            = (s', walk_error)
      \<longrightarrow>
      comments (ensure_yaml_standards repr dump writable (Map r kvs) s output_path) = s'
      \<and> (walk_error = None \<or> walk_error = Some AttributeError \<longrightarrow>
           raised (ensure_yaml_standards repr dump writable (Map r kvs) s output_path)
             = (if writable output_path then None else Some OSError)
           \<and> written (ensure_yaml_standards repr dump writable (Map r kvs) s output_path)
             = (if writable output_path
                then Some (dump (Map r (put_item (Name ''parsed_sample'') sample' kvs)) s')
                else None))
      \<and> (walk_error \<noteq> None \<and> walk_error \<noteq> Some AttributeError \<longrightarrow>
           raised (ensure_yaml_standards repr dump writable (Map r kvs) s output_path)
             = walk_error
           \<and> written (ensure_yaml_standards repr dump writable (Map r kvs) s output_path)
             = None)
      \<and> (attachments_ok (Map r (put_item (Name ''parsed_sample'') sample' kvs))
           \<and> \<not> commented (Map r (put_item (Name ''parsed_sample'') sample' kvs))
           \<longrightarrow> walk_error = Some AttributeError))"
proof (intro conjI impI)
  assume "map_of kvs (Name ''parsed_sample'') = None"
  then show "ensure_yaml_standards repr dump writable (Map r kvs) s output_path
             = \<lparr>document = Map r kvs, comments = s, written = None, raised = Some KeyError\<rparr>"
    by simp
next
  assume h: "map_of kvs (Name ''parsed_sample'') = Some sample
             \<and> snd (quote_sample repr sample) = Some e"
  then obtain sample' where "quote_sample repr sample = (sample', Some e)"
    by (cases "quote_sample repr sample") auto
  with h show "raised (ensure_yaml_standards repr dump writable (Map r kvs) s output_path) = Some e"
    and "written (ensure_yaml_standards repr dump writable (Map r kvs) s output_path) = None"
    and "comments (ensure_yaml_standards repr dump writable (Map r kvs) s output_path) = s"
    by simp_all
next
  assume h: "map_of kvs (Name ''parsed_sample'') = Some sample
             \<and> quote_sample repr sample = (sample', None)
             \<and> update_yaml_comments (Map r (put_item (Name ''parsed_sample'') sample' kvs)) s
                 = (s', walk_error)"
  note w = ensure_yaml_standards_walked [OF conjunct1 [OF h] conjunct1 [OF conjunct2 [OF h]]
      conjunct2 [OF conjunct2 [OF h]], of dump writable output_path]
  show "comments (ensure_yaml_standards repr dump writable (Map r kvs) s output_path) = s'"
    using h w by (simp add: write_file_def)
  show "raised (ensure_yaml_standards repr dump writable (Map r kvs) s output_path)
        = (if writable output_path then None else Some OSError)"
    if "walk_error = None \<or> walk_error = Some AttributeError"
    using h w that by (auto simp: write_file_def)
  show "written (ensure_yaml_standards repr dump writable (Map r kvs) s output_path)
        = (if writable output_path
           then Some (dump (Map r (put_item (Name ''parsed_sample'') sample' kvs)) s')
           else None)"
    if "walk_error = None \<or> walk_error = Some AttributeError"
    using h w that by (auto simp: write_file_def)
  show "raised (ensure_yaml_standards repr dump writable (Map r kvs) s output_path) = walk_error"
    if "walk_error \<noteq> None \<and> walk_error \<noteq> Some AttributeError"
    using h w that by simp
  show "written (ensure_yaml_standards repr dump writable (Map r kvs) s output_path) = None"
    if "walk_error \<noteq> None \<and> walk_error \<noteq> Some AttributeError"
    using h w that by simp
  show "walk_error = Some AttributeError"
    if "attachments_ok (Map r (put_item (Name ''parsed_sample'') sample' kvs))
        \<and> \<not> commented (Map r (put_item (Name ''parsed_sample'') sample' kvs))"
    using h that walk_outcome(1) [of "Map r (put_item (Name ''parsed_sample'') sample' kvs)" s]
    by simp
qed

theorem writer_errors_witness:
  "map_of [(Name ''other'', Seq None [])] (Name ''parsed_sample'') = None
   \<and> ensure_yaml_standards (\<lambda>v. ''[]'') (\<lambda>d s. ''---'') (\<lambda>p. True)
        (Map None [(Name ''other'', Seq None [])]) example_store ''out.yml''
       = \<lparr>document = Map None [(Name ''other'', Seq None [])], comments = example_store,
          written = None, raised = Some KeyError\<rparr>
   \<and> map_of [(Name ''parsed_sample'', Seq None [Map None [(Name ''a'', Null)]])]
        (Name ''parsed_sample'') = Some (Seq None [Map None [(Name ''a'', Null)]])
   \<and> snd (quote_sample (\<lambda>v. ''[]'') (Seq None [Map None [(Name ''a'', Null)]])) = Some TypeError
   \<and> raised (ensure_yaml_standards (\<lambda>v. ''[]'') (\<lambda>d s. ''---'') (\<lambda>p. True)
        (Map None [(Name ''parsed_sample'', Seq None [Map None [(Name ''a'', Null)]])])
        example_store ''out.yml'') = Some TypeError
   \<and> map_of [(Name ''parsed_sample'', Seq None [Map None [(Name ''a'', Str ''x'')]])]
        (Name ''parsed_sample'') = Some (Seq None [Map None [(Name ''a'', Str ''x'')]])
   \<and> quote_sample (\<lambda>v. ''[]'') (Seq None [Map None [(Name ''a'', Str ''x'')]])
       = (Seq None [Map None [(Name ''a'', DQ ''x'')]], None)
   \<and> update_yaml_comments
        (Map None (put_item (Name ''parsed_sample'') (Seq None [Map None [(Name ''a'', DQ ''x'')]])
           [(Name ''parsed_sample'', Seq None [Map None [(Name ''a'', Str ''x'')]])]))
        example_store = (example_store, Some AttributeError)
   \<and> raised (ensure_yaml_standards (\<lambda>v. ''[]'') (\<lambda>d s. ''---'') (\<lambda>p. True)
        (Map None [(Name ''parsed_sample'', Seq None [Map None [(Name ''a'', Str ''x'')]])])
        example_store ''out.yml'') = None
   \<and> written (ensure_yaml_standards (\<lambda>v. ''[]'') (\<lambda>d s. ''---'') (\<lambda>p. True)
        (Map None [(Name ''parsed_sample'', Seq None [Map None [(Name ''a'', Str ''x'')]])])
        example_store ''out.yml'') = Some ''---''
   \<and> map_of [(Name ''parsed_sample'', Seq (Some []) [])] (Name ''parsed_sample'')
       = Some (Seq (Some []) [])
   \<and> quote_sample (\<lambda>v. ''[]'') (Seq (Some []) []) = (Seq (Some []) [], None)
   \<and> update_yaml_comments
        (Map (Some [(Name ''k'', NotIterable)])
           (put_item (Name ''parsed_sample'') (Seq (Some []) [])
              [(Name ''parsed_sample'', Seq (Some []) [])]))
        example_store = (example_store, Some TypeError)
   \<and> raised (ensure_yaml_standards (\<lambda>v. ''[]'') (\<lambda>d s. ''---'') (\<lambda>p. True)
        (Map (Some [(Name ''k'', NotIterable)]) [(Name ''parsed_sample'', Seq (Some []) [])])
        example_store ''out.yml'') = Some TypeError
   \<and> written (ensure_yaml_standards (\<lambda>v. ''[]'') (\<lambda>d s. ''---'') (\<lambda>p. True)
        (Map (Some [(Name ''k'', NotIterable)]) [(Name ''parsed_sample'', Seq (Some []) [])])
        example_store ''out.yml'') = None"
proof -
  have 1: "map_of [(Name ''other'', Seq None [])] (Name ''parsed_sample'') = None"
    by simp
  have 2: "map_of [(Name ''parsed_sample'', Seq None [Map None [(Name ''a'', Null)]])]
             (Name ''parsed_sample'') = Some (Seq None [Map None [(Name ''a'', Null)]])
           \<and> snd (quote_sample (\<lambda>v. ''[]'') (Seq None [Map None [(Name ''a'', Null)]]))
               = Some TypeError"
    by (simp add: quote_value_def)
  have 3: "map_of [(Name ''parsed_sample'', Seq None [Map None [(Name ''a'', Str ''x'')]])]
             (Name ''parsed_sample'') = Some (Seq None [Map None [(Name ''a'', Str ''x'')]])
           \<and> quote_sample (\<lambda>v. ''[]'') (Seq None [Map None [(Name ''a'', Str ''x'')]])
               = (Seq None [Map None [(Name ''a'', DQ ''x'')]], None)
           \<and> update_yaml_comments
                (Map None (put_item (Name ''parsed_sample'')
                   (Seq None [Map None [(Name ''a'', DQ ''x'')]])
                   [(Name ''parsed_sample'', Seq None [Map None [(Name ''a'', Str ''x'')]])]))
                example_store = (example_store, Some AttributeError)"
    by (simp add: quote_value_def)
  have 4: "map_of [(Name ''parsed_sample'', Seq (Some []) [])] (Name ''parsed_sample'')
             = Some (Seq (Some []) [])
           \<and> quote_sample (\<lambda>v. ''[]'') (Seq (Some []) []) = (Seq (Some []) [], None)
           \<and> update_yaml_comments
                (Map (Some [(Name ''k'', NotIterable)])
                   (put_item (Name ''parsed_sample'') (Seq (Some []) [])
                      [(Name ''parsed_sample'', Seq (Some []) [])]))
                example_store = (example_store, Some TypeError)"
    by simp
  note a = writer_errors [where kvs = "[(Name ''other'', Seq None [])]" and r = None
      and repr = "\<lambda>v. ''[]''" and dump = "\<lambda>d s. ''---''" and writable = "\<lambda>p. True"
      and s = example_store and output_path = "''out.yml''"]
  note b = writer_errors [where kvs = "[(Name ''parsed_sample'', Seq None [Map None [(Name ''a'', Null)]])]"
      and sample = "Seq None [Map None [(Name ''a'', Null)]]" and e = TypeError and r = None
      and repr = "\<lambda>v. ''[]''" and dump = "\<lambda>d s. ''---''" and writable = "\<lambda>p. True"
      and s = example_store and output_path = "''out.yml''"]
  note c = writer_errors [where kvs = "[(Name ''parsed_sample'', Seq None [Map None [(Name ''a'', Str ''x'')]])]"
      and sample = "Seq None [Map None [(Name ''a'', Str ''x'')]]"
      and sample' = "Seq None [Map None [(Name ''a'', DQ ''x'')]]" and r = None
      and s' = example_store and walk_error = "Some AttributeError"
      and repr = "\<lambda>v. ''[]''" and dump = "\<lambda>d s. ''---''" and writable = "\<lambda>p. True"
      and s = example_store and output_path = "''out.yml''"]
  note d = writer_errors [where kvs = "[(Name ''parsed_sample'', Seq (Some []) [])]"
      and sample = "Seq (Some []) []" and sample' = "Seq (Some []) []"
      and r = "Some [(Name ''k'', NotIterable)]"
      and s' = example_store and walk_error = "Some TypeError"
      and repr = "\<lambda>v. ''[]''" and dump = "\<lambda>d s. ''---''" and writable = "\<lambda>p. True"
      and s = example_store and output_path = "''out.yml''"]
  have "ensure_yaml_standards (\<lambda>v. ''[]'') (\<lambda>d s. ''---'') (\<lambda>p. True)
          (Map None [(Name ''other'', Seq None [])]) example_store ''out.yml''
        = \<lparr>document = Map None [(Name ''other'', Seq None [])], comments = example_store,
           written = None, raised = Some KeyError\<rparr>"
    using a 1 by blast
  moreover have "raised (ensure_yaml_standards (\<lambda>v. ''[]'') (\<lambda>d s. ''---'') (\<lambda>p. True)
          (Map None [(Name ''parsed_sample'', Seq None [Map None [(Name ''a'', Null)]])])
          example_store ''out.yml'') = Some TypeError"
    using b 2 by blast
  moreover have "raised (ensure_yaml_standards (\<lambda>v. ''[]'') (\<lambda>d s. ''---'') (\<lambda>p. True)
          (Map None [(Name ''parsed_sample'', Seq None [Map None [(Name ''a'', Str ''x'')]])])
          example_store ''out.yml'') = None
        \<and> written (ensure_yaml_standards (\<lambda>v. ''[]'') (\<lambda>d s. ''---'') (\<lambda>p. True)
          (Map None [(Name ''parsed_sample'', Seq None [Map None [(Name ''a'', Str ''x'')]])])
          example_store ''out.yml'') = Some ''---''"
    using c 3 by simp
  moreover have "raised (ensure_yaml_standards (\<lambda>v. ''[]'') (\<lambda>d s. ''---'') (\<lambda>p. True)
          (Map (Some [(Name ''k'', NotIterable)]) [(Name ''parsed_sample'', Seq (Some []) [])])
          example_store ''out.yml'') = Some TypeError
        \<and> written (ensure_yaml_standards (\<lambda>v. ''[]'') (\<lambda>d s. ''---'') (\<lambda>p. True)
          (Map (Some [(Name ''k'', NotIterable)]) [(Name ''parsed_sample'', Seq (Some []) [])])
          example_store ''out.yml'') = None"
    using d 4 by simp
  ultimately show ?thesis
    using 1 2 3 4 by blast
qed

text \<open>
  Every mapping and sequence of \<open>loaded_sample\<close> carries a registry. The quoting pass
  replaces the list under \<open>b\<close> of the first record by a plain list; the walk raises
  \<open>AttributeError\<close> there, the handler suppresses it, and the file is written with the
  comment of the second record, token 1, still \<open>"#comment 7\n"\<close>.
\<close>

theorem writer_suppression_counterexample:
  "commented loaded_sample \<and> attachments_ok loaded_sample
   \<and> snd (update_yaml_comments
        (document (ensure_yaml_standards (\<lambda>v. ''[]'') (\<lambda>d s. ''---'') (\<lambda>p. True)
           loaded_sample example_store ''out.yml''))
        example_store) = Some AttributeError
   \<and> raised (ensure_yaml_standards (\<lambda>v. ''[]'') (\<lambda>d s. ''---'') (\<lambda>p. True)
        loaded_sample example_store ''out.yml'') = None
   \<and> written (ensure_yaml_standards (\<lambda>v. ''[]'') (\<lambda>d s. ''---'') (\<lambda>p. True)
        loaded_sample example_store ''out.yml'') = Some ''---''
   \<and> 1 \<in> set (token_refs loaded_sample)
   \<and> comments (ensure_yaml_standards (\<lambda>v. ''[]'') (\<lambda>d s. ''---'') (\<lambda>p. True)
        loaded_sample example_store ''out.yml'') 1 = ''#comment 7\<newline>''"
  by code_simp

end
